theory Spec2Isabelle
  imports Main "HOL-Library.Finite_Map"
begin

section \<open>JavaScript values\<close>

text \<open>
  The validators of \<^verbatim>\<open>src/lib/validators.js\<close> inspect values with \<^verbatim>\<open>typeof\<close>,
  \<^verbatim>\<open>Array.isArray\<close>, \<^verbatim>\<open>.length\<close>, the relational operators, \<^verbatim>\<open>==\<close> and \<^verbatim>\<open>===\<close>.
  They perform no arithmetic. A number is therefore modelled by the value it denotes:
  not-a-number, an infinity, or a finite rational (every finite double is one), and the
  comparisons on these are the comparisons of the doubles.

  A string is a sequence of code units; \<^typ>\<open>char\<close> stands for a code unit, so that
  \<^const>\<open>length\<close> is the \<^verbatim>\<open>.length\<close> of the string. Arrays, plain objects and regular
  expressions are objects: they carry the identity of the object, which is what \<^verbatim>\<open>===\<close>
  compares. A regular expression has its source and its flags; its \<^verbatim>\<open>lastIndex\<close>, which
  matching reads and writes, is not part of the value but of the state (see below).
\<close>

type_synonym ref = nat

datatype regexp = RegExp (ident: ref) (source: string) (flags: string)

datatype jsnum = NaN | NegInf | Fin rat | PosInf

datatype jsval =
    JUndefined
  | JNull
  | JBool bool
  | JNum jsnum
  | JStr string
  | JArr ref "jsval list"
  | JObj ref "(string, jsval) fmap"
  | JRegExp regexp

fun typeof :: "jsval \<Rightarrow> string" where
  "typeof JUndefined = ''undefined''"
| "typeof JNull = ''object''"
| "typeof (JBool b) = ''boolean''"
| "typeof (JNum n) = ''number''"
| "typeof (JStr s) = ''string''"
| "typeof (JArr r xs) = ''object''"
| "typeof (JObj r m) = ''object''"
| "typeof (JRegExp r) = ''object''"

fun isArray :: "jsval \<Rightarrow> bool" where
  "isArray (JArr r xs) = True"
| "isArray v = False"

text \<open>\<^verbatim>\<open>value.length\<close>, read only after the value is known to be a string or an array.\<close>

fun js_length :: "jsval \<Rightarrow> int" where
  "js_length (JStr s) = int (length s)"
| "js_length (JArr r xs) = int (length xs)"
| "js_length v = 0"

text \<open>
  The class \<^verbatim>\<open>\s\<close> of a regular expression, on the code units below 256: tab, line
  feed, vertical tab, form feed, carriage return, space and no-break space.
  \<^verbatim>\<open>/^\s*$/.test(s)\<close> holds when every code unit of \<^verbatim>\<open>s\<close> is in the class.
\<close>

definition is_space :: "char \<Rightarrow> bool" where
  "is_space c \<longleftrightarrow> (of_char c :: nat) \<in> {9, 10, 11, 12, 13, 32, 160}"

definition blank :: "string \<Rightarrow> bool" where
  "blank s \<longleftrightarrow> list_all is_space s"

text \<open>
  Template literals print the numeric options. The options are integers here, and
  \<open>number_to_string\<close> prints all their decimal digits. That is the text JavaScript prints
  for an integer of magnitude up to \<open>2\<^sup>5\<^sup>3\<close>; above, a double is printed with the fewest
  digits that identify it, and in exponent notation from \<open>10\<^sup>2\<^sup>1\<close> on. The theorems name
  the printed text \<open>number_to_string n\<close> and say nothing of its digits.
\<close>

definition digit_char :: "nat \<Rightarrow> char" where
  "digit_char d = ''0123456789'' ! d"

fun digits :: "nat \<Rightarrow> string" where
  "digits n = (if n < 10 then [digit_char n] else digits (n div 10) @ [digit_char (n mod 10)])"

declare digits.simps [simp del]

definition number_to_string :: "int \<Rightarrow> string" where
  "number_to_string n = (if n < 0 then CHR ''-'' # digits (nat (- n)) else digits (nat n))"

subsection \<open>Comparison and equality\<close>

text \<open>
  \<^verbatim>\<open>Number::lessThan\<close> and \<^verbatim>\<open>Number::equal\<close> of ECMA-262. The first is undefined
  (\<open>None\<close>) when an operand is NaN; the second is false then.
\<close>

fun Number_lessThan :: "jsnum \<Rightarrow> jsnum \<Rightarrow> bool option" where
  "Number_lessThan NaN y = None"
| "Number_lessThan x NaN = None"
| "Number_lessThan NegInf y = Some (y \<noteq> NegInf)"
| "Number_lessThan PosInf y = Some False"
| "Number_lessThan (Fin a) NegInf = Some False"
| "Number_lessThan (Fin a) PosInf = Some True"
| "Number_lessThan (Fin a) (Fin b) = Some (a < b)"

fun Number_equal :: "jsnum \<Rightarrow> jsnum \<Rightarrow> bool" where
  "Number_equal NaN y = False"
| "Number_equal x NaN = False"
| "Number_equal x y = (x = y)"

text \<open>
  \<^verbatim>\<open>ToNumber\<close>. The conversion of a string (\<^verbatim>\<open>StringToNumber\<close>, which rounds to a double)
  and of an object (\<^verbatim>\<open>ToPrimitive\<close>, then the conversion of the string it gives) are the
  engine's: they are the parameter \<open>h\<close>, and every theorem below holds for each \<open>h\<close>.
\<close>

fun ToNumber :: "(jsval \<Rightarrow> jsnum) \<Rightarrow> jsval \<Rightarrow> jsnum" where
  "ToNumber h JUndefined = NaN"
| "ToNumber h JNull = Fin 0"
| "ToNumber h (JBool b) = Fin (if b then 1 else 0)"
| "ToNumber h (JNum n) = n"
| "ToNumber h v = h v"

text \<open>
  \<^verbatim>\<open>value < number\<close>, \<^verbatim>\<open>value > number\<close>, \<^verbatim>\<open>value <= number\<close>, \<^verbatim>\<open>value >= number\<close>
  and \<^verbatim>\<open>value == number\<close> where \<^verbatim>\<open>number\<close> is a number: the other operand is converted
  with \<^verbatim>\<open>ToNumber\<close>, and an undefined comparison is false. \<^verbatim>\<open>null\<close> and \<^verbatim>\<open>undefined\<close> are
  loosely equal to no number.
\<close>

definition js_lt :: "(jsval \<Rightarrow> jsnum) \<Rightarrow> jsval \<Rightarrow> int \<Rightarrow> bool" where
  "js_lt h v n \<longleftrightarrow> Number_lessThan (ToNumber h v) (Fin (of_int n)) = Some True"

definition js_gt :: "(jsval \<Rightarrow> jsnum) \<Rightarrow> jsval \<Rightarrow> int \<Rightarrow> bool" where
  "js_gt h v n \<longleftrightarrow> Number_lessThan (Fin (of_int n)) (ToNumber h v) = Some True"

definition js_le :: "(jsval \<Rightarrow> jsnum) \<Rightarrow> jsval \<Rightarrow> int \<Rightarrow> bool" where
  "js_le h v n \<longleftrightarrow> Number_lessThan (Fin (of_int n)) (ToNumber h v) = Some False"

definition js_ge :: "(jsval \<Rightarrow> jsnum) \<Rightarrow> jsval \<Rightarrow> int \<Rightarrow> bool" where
  "js_ge h v n \<longleftrightarrow> Number_lessThan (ToNumber h v) (Fin (of_int n)) = Some False"

definition js_eq :: "(jsval \<Rightarrow> jsnum) \<Rightarrow> jsval \<Rightarrow> int \<Rightarrow> bool" where
  "js_eq h v n \<longleftrightarrow>
     (case v of
        JUndefined \<Rightarrow> False
      | JNull \<Rightarrow> False
      | _ \<Rightarrow> Number_equal (ToNumber h v) (Fin (of_int n)))"

text \<open>\<^verbatim>\<open>x === y\<close>: no conversion; objects are equal when they are the same object.\<close>

fun strict_equal :: "jsval \<Rightarrow> jsval \<Rightarrow> bool" where
  "strict_equal JUndefined JUndefined = True"
| "strict_equal JNull JNull = True"
| "strict_equal (JBool a) (JBool b) = (a = b)"
| "strict_equal (JNum a) (JNum b) = Number_equal a b"
| "strict_equal (JStr a) (JStr b) = (a = b)"
| "strict_equal (JArr r xs) (JArr r' ys) = (r = r')"
| "strict_equal (JObj r m) (JObj r' m') = (r = r')"
| "strict_equal (JRegExp r) (JRegExp r') = (ident r = ident r')"
| "strict_equal x y = False"

section \<open>The changeset and its accessors\<close>

text \<open>
  An error descriptor is an object literal: its properties in the order written. Its
  attributes are strings, the numeric options, values of the changeset, or the lists
  given as options.
\<close>

datatype attr = AStr string | ANum int | AVal jsval | AList "jsval list"

type_synonym descriptor = "(string \<times> attr) list"

text \<open>
  Modelled from the spec: the changeset, which \<^verbatim>\<open>./changeset\<close> defines and \<^verbatim>\<open>src/\<close>
  does not hold. The spec: an immutable record of \<^verbatim>\<open>data\<close> (field to persisted value),
  \<^verbatim>\<open>changes\<close> (field to proposed value, partial) and \<^verbatim>\<open>errors\<close> (field to an ordered
  sequence of error descriptors).
\<close>

record changeset =
  data :: "string \<rightharpoonup> jsval"
  changes :: "string \<rightharpoonup> jsval"
  errors :: "string \<rightharpoonup> descriptor list"

text \<open>The errors recorded for a field; a field absent from the map has none.\<close>

definition errors_of :: "changeset \<Rightarrow> string \<Rightarrow> descriptor list" where
  "errors_of cs field = (case errors cs field of None \<Rightarrow> [] | Some es \<Rightarrow> es)"

text \<open>
  Modelled from the spec: \<^verbatim>\<open>getChange\<close> of \<^verbatim>\<open>./changeset\<close>, absent from \<^verbatim>\<open>src/\<close>.
  The spec: \<^verbatim>\<open>getChange(field, changeset) -> (found: bool, value)\<close> reads the pending
  change. A change that \<^verbatim>\<open>required\<close> has set to null is, in the spec's words, "an explicit
  absence", and a validator that "only activates on a pending change" does nothing on
  it: a field has a pending change when \<^verbatim>\<open>changes\<close> holds a value for it that is not
  null. The value read for a field that \<^verbatim>\<open>changes\<close> does not hold is \<^verbatim>\<open>undefined\<close>, as
  for a property that an object lacks.
\<close>

definition getChange :: "string \<Rightarrow> changeset \<Rightarrow> bool \<times> jsval" where
  "getChange field cs =
     (case changes cs field of
        None \<Rightarrow> (False, JUndefined)
      | Some v \<Rightarrow> (v \<noteq> JNull, v))"

text \<open>
  Modelled from the spec: \<^verbatim>\<open>getField\<close> of \<^verbatim>\<open>./changeset\<close>, absent from \<^verbatim>\<open>src/\<close>.
  The spec: \<^verbatim>\<open>getField(field, changeset) -> (found: bool, value)\<close> reads persisted data.
  The value read for a field that \<^verbatim>\<open>data\<close> does not hold is \<^verbatim>\<open>undefined\<close>.
\<close>

definition getField :: "string \<Rightarrow> changeset \<Rightarrow> bool \<times> jsval" where
  "getField field cs =
     (case data cs field of
        None \<Rightarrow> (False, JUndefined)
      | Some v \<Rightarrow> (True, v))"

text \<open>
  The effective value of a field, in the spec's words: the pending change, and the
  persisted value when there is none. No validator computes it; it is here to compare
  \<^verbatim>\<open>confirmation\<close> with.
\<close>

definition effective_value :: "string \<Rightarrow> changeset \<Rightarrow> jsval" where
  "effective_value field cs =
     (let (ok, value) = getChange field cs
      in if ok then value else snd (getField field cs))"

text \<open>
  Modelled from the spec: \<^verbatim>\<open>putChange\<close> of \<^verbatim>\<open>./changeset\<close>, absent from \<^verbatim>\<open>src/\<close>.
  The spec: write-change; every write returns a new changeset value.
\<close>

definition putChange :: "string \<Rightarrow> jsval \<Rightarrow> changeset \<Rightarrow> changeset" where
  "putChange field v cs = cs\<lparr>changes := (changes cs)(field \<mapsto> v)\<rparr>"

text \<open>
  Modelled from the spec: \<^verbatim>\<open>putError\<close> of \<^verbatim>\<open>./changeset\<close>, absent from \<^verbatim>\<open>src/\<close>.
  The spec: append-error; a field accumulates its errors in the order the validators
  ran.
\<close>

definition putError :: "string \<Rightarrow> descriptor \<Rightarrow> changeset \<Rightarrow> changeset" where
  "putError field e cs = cs\<lparr>errors := (errors cs)(field \<mapsto> errors_of cs field @ [e])\<rparr>"

text \<open>
  Modelled from the spec: \<^verbatim>\<open>isEqual\<close> of \<^verbatim>\<open>./utils\<close>, absent from \<^verbatim>\<open>src/\<close>.
  The spec: deep equality. Two values are deeply equal when they agree once the
  identities of their objects are forgotten.
\<close>

primrec erase :: "jsval \<Rightarrow> jsval" where
  "erase JUndefined = JUndefined"
| "erase JNull = JNull"
| "erase (JBool b) = JBool b"
| "erase (JNum n) = JNum n"
| "erase (JStr s) = JStr s"
| "erase (JArr r xs) = JArr 0 (map erase xs)"
| "erase (JObj r m) = JObj 0 (fmmap erase m)"
| "erase (JRegExp r) = JRegExp (RegExp 0 (source r) (flags r))"

definition isEqual :: "jsval \<Rightarrow> jsval \<Rightarrow> bool" where
  "isEqual a b \<longleftrightarrow> erase a = erase b"

text \<open>
  Modelled from the spec: \<^verbatim>\<open>pipe\<close> of \<^verbatim>\<open>./utils\<close>, absent from \<^verbatim>\<open>src/\<close>.
  The spec: left-to-right function composition.
\<close>

definition pipe :: "('a \<Rightarrow> 'b) \<Rightarrow> ('b \<Rightarrow> 'c) \<Rightarrow> 'a \<Rightarrow> 'c" where
  "pipe f g x = g (f x)"

section \<open>The validators\<close>

text \<open>
  Every validator takes its options and a changeset; \<^verbatim>\<open>mapObj\<close> with \<^verbatim>\<open>curry\<close> makes
  each one callable with the options alone, which is how a HOL function of two arguments
  is applied anyway. A \<^verbatim>\<open>message\<close> that the caller leaves out is \<open>None\<close>.

  A validator that throws returns what it threw on the left. \<^verbatim>\<open>Array.reduce\<close>
  over the fields is \<^const>\<open>foldl\<close>; where the callback can throw, the throw ends the
  reduction.
\<close>

record opts =
  message :: "string option"
  fields_opt :: "string list"

fun reduce :: "('a \<Rightarrow> 'b \<Rightarrow> 'e + 'a) \<Rightarrow> 'b list \<Rightarrow> 'a \<Rightarrow> 'e + 'a" where
  "reduce f [] acc = Inr acc"
| "reduce f (x # xs) acc = (case f acc x of Inl thrown \<Rightarrow> Inl thrown | Inr acc' \<Rightarrow> reduce f xs acc')"

text \<open>A default parameter applies when the property is undefined.\<close>

definition default_to :: "string \<Rightarrow> string option \<Rightarrow> string" where
  "default_to d m = (case m of None \<Rightarrow> d | Some s \<Rightarrow> s)"

text \<open>
  \<^verbatim>\<open>a || b\<close> where \<^verbatim>\<open>a\<close> is a string or undefined: \<^verbatim>\<open>a\<close> when it is a non-empty
  string, \<^verbatim>\<open>b\<close> otherwise.
\<close>

definition or_default :: "string option \<Rightarrow> string \<Rightarrow> string" where
  "or_default a b = (case a of None \<Rightarrow> b | Some s \<Rightarrow> if s = [] then b else s)"

text \<open>\<^verbatim>\<open>ToBoolean\<close>, the test of \<^verbatim>\<open>if (value)\<close>.\<close>

fun js_truthy :: "jsval \<Rightarrow> bool" where
  "js_truthy JUndefined = False"
| "js_truthy JNull = False"
| "js_truthy (JBool b) = b"
| "js_truthy (JNum n) = (n \<noteq> NaN \<and> n \<noteq> Fin 0)"
| "js_truthy (JStr s) = (s \<noteq> [])"
| "js_truthy v = True"

subsection \<open>required\<close>

definition valid :: "jsval \<Rightarrow> bool" where
  "valid attr \<longleftrightarrow>
     (typeof attr = ''string'' \<and> \<not> (case attr of JStr s \<Rightarrow> blank s | _ \<Rightarrow> False)) \<or>
     typeof attr = ''number'' \<or>
     typeof attr = ''boolean'' \<or>
     (typeof attr = ''object'' \<and> attr \<noteq> JNull)"

definition required_step :: "opts \<Rightarrow> changeset \<Rightarrow> string \<Rightarrow> changeset" where
  "required_step opt cs field =
     (let (ok, value) = getChange field cs;
          (ok, value) = (if \<not> ok then getField field cs else (ok, value))
      in if valid value then cs
         else pipe
                (putError field
                   [(''message'', AStr (default_to ''can't be blank'' (message opt))),
                    (''validation'', AStr ''required'')])
                (putChange field JNull)
                cs)"

definition required :: "opts \<Rightarrow> changeset \<Rightarrow> changeset" where
  "required opt cs = foldl (required_step opt) cs (fields_opt opt)"

subsection \<open>length\<close>

text \<open>
  \<^verbatim>\<open>min\<close> and \<^verbatim>\<open>max\<close> are integers, as lengths are.
\<close>

record length_opts = opts +
  min_opt :: int
  max_opt :: int

definition length_messages :: "bool \<Rightarrow> (int \<Rightarrow> string) \<times> (int \<Rightarrow> string) \<times> (int \<Rightarrow> string)" where
  "length_messages isString =
     (if isString
      then (\<lambda>x. ''should be '' @ number_to_string x @ '' character(s)'',
            \<lambda>x. ''should be at least '' @ number_to_string x @ '' character(s)'',
            \<lambda>x. ''should be at most '' @ number_to_string x @ '' character(s)'')
      else (\<lambda>x. ''should have '' @ number_to_string x @ '' items(s)'',
            \<lambda>x. ''should have at least '' @ number_to_string x @ '' items(s)'',
            \<lambda>x. ''should have at most '' @ number_to_string x @ '' items(s)''))"

definition length_step :: "length_opts \<Rightarrow> changeset \<Rightarrow> string \<Rightarrow> string + changeset" where
  "length_step opt cs field =
     (let (ok, value) = getChange field cs
      in if \<not> ok then Inr cs
         else
           let isString = (typeof value = ''string'')
           in if \<not> (isString \<or> isArray value)
              then Inl (''Invalid type of '' @ [CHR 0x22] @ field @ [CHR 0x22] @
                        ''. Valid types: string, array.'')
              else
                let (msg_is, msg_min, msg_max) = length_messages isString;
                    len = js_length value;
                    m0 = None;
                    m1 = (if min_opt opt = max_opt opt \<and> min_opt opt = len
                          then Some (msg_is (min_opt opt)) else m0);
                    m2 = (if len < min_opt opt then Some (msg_min (min_opt opt)) else m1);
                    m3 = (if len > max_opt opt then Some (msg_max (max_opt opt)) else m2)
                in case m3 of
                     None \<Rightarrow> Inr cs
                   | Some msg \<Rightarrow>
                       if msg = [] then Inr cs
                       else Inr (putError field
                              [(''message'', AStr (or_default (message opt) msg)),
                               (''validation'', AStr ''length''),
                               (''min'', ANum (min_opt opt)),
                               (''max'', ANum (max_opt opt))]
                              cs))"

definition length_validator :: "length_opts \<Rightarrow> changeset \<Rightarrow> string + changeset" where
  "length_validator opt cs = reduce (length_step opt) (fields_opt opt) cs"

subsection \<open>acceptance\<close>

definition acceptance_step :: "opts \<Rightarrow> changeset \<Rightarrow> string \<Rightarrow> string + changeset" where
  "acceptance_step opt cs field =
     (let (ok, value) = getChange field cs
      in if \<not> ok then Inr cs
         else if typeof value \<noteq> ''boolean''
         then Inl (''Invalid type of '' @ field @ ''. Valid types: boolean.'')
         else if js_truthy value then Inr cs
         else Inr (putError field
                [(''message'', AStr (default_to ''must be accepted'' (message opt))),
                 (''validation'', AStr ''acceptance'')]
                cs))"

definition acceptance :: "opts \<Rightarrow> changeset \<Rightarrow> string + changeset" where
  "acceptance opt cs = reduce (acceptance_step opt) (fields_opt opt) cs"

subsection \<open>change\<close>

text \<open>
  The caller's \<^verbatim>\<open>validator\<close> is taken to be a function of the value: it returns the
  array of the errors to add.
\<close>

record change_opts = opts +
  validator :: "jsval \<Rightarrow> descriptor list"

definition change_step :: "change_opts \<Rightarrow> changeset \<Rightarrow> string \<Rightarrow> changeset" where
  "change_step opt cs field =
     (let (ok, value) = getChange field cs
      in if \<not> ok then cs
         else foldl (\<lambda>cs error. putError field error cs) cs (validator opt value))"

definition change :: "change_opts \<Rightarrow> changeset \<Rightarrow> changeset" where
  "change opt cs = foldl (change_step opt) cs (fields_opt opt)"

subsection \<open>confirmation\<close>

definition confirmation_step :: "opts \<Rightarrow> changeset \<Rightarrow> string \<Rightarrow> changeset" where
  "confirmation_step opt cs field =
     (let confirmationField = field @ ''Confirmation'';
          (okValue, value) = getChange field cs;
          (okConfirmation, confirmation) = getChange confirmationField cs
      in if \<not> okValue \<and> \<not> okConfirmation then cs
         else if isEqual value confirmation then cs
         else putError field
                [(''message'', AStr (default_to ''does not match'' (message opt))),
                 (''validation'', AStr ''confirmation''),
                 (''confirmation'', AVal confirmation)]
                cs)"

definition confirmation :: "opts \<Rightarrow> changeset \<Rightarrow> changeset" where
  "confirmation opt cs = foldl (confirmation_step opt) cs (fields_opt opt)"

subsection \<open>exclusion and inclusion\<close>

record exclusion_opts = opts +
  reserved :: "jsval list"

definition exclusion_step :: "exclusion_opts \<Rightarrow> changeset \<Rightarrow> string \<Rightarrow> changeset" where
  "exclusion_step opt cs field =
     (let (ok, value) = getChange field cs
      in if \<not> ok then cs
         else if \<not> list_ex (\<lambda>x. strict_equal x value) (reserved opt) then cs
         else putError field
                [(''message'', AStr (default_to ''is reserved'' (message opt))),
                 (''validation'', AStr ''exclusion''),
                 (''reserved'', AList (reserved opt))]
                cs)"

definition exclusion :: "exclusion_opts \<Rightarrow> changeset \<Rightarrow> changeset" where
  "exclusion opt cs = foldl (exclusion_step opt) cs (fields_opt opt)"

record inclusion_opts = opts +
  include_opt :: "jsval list"

definition inclusion_step :: "inclusion_opts \<Rightarrow> changeset \<Rightarrow> string \<Rightarrow> changeset" where
  "inclusion_step opt cs field =
     (let (ok, value) = getChange field cs
      in if \<not> ok then cs
         else if list_ex (\<lambda>x. strict_equal x value) (include_opt opt) then cs
         else putError field
                [(''message'', AStr (default_to ''is invalid'' (message opt))),
                 (''validation'', AStr ''inclusion''),
                 (''include'', AList (include_opt opt))]
                cs)"

definition inclusion :: "inclusion_opts \<Rightarrow> changeset \<Rightarrow> changeset" where
  "inclusion opt cs = foldl (inclusion_step opt) cs (fields_opt opt)"

subsection \<open>format\<close>

text \<open>
  \<^verbatim>\<open>value.match(match)\<close> runs the regular expression, and running it reads and writes
  the \<^verbatim>\<open>lastIndex\<close> of the \<^verbatim>\<open>RegExp\<close> object. The state of the engine that matters here
  is therefore the \<^verbatim>\<open>lastIndex\<close> of every such object, by identity; a new object has 0.

  What the pattern itself matches is the engine's: the parameter \<open>M\<close> is the matcher of
  ECMA-262, which for a string and an index fails or gives the end of the match that
  starts at the index. \<open>literal\<close> is the matcher of a pattern of plain characters.
\<close>

type_synonym lastIndexes = "ref \<Rightarrow> nat"

type_synonym matcher = "regexp \<Rightarrow> string \<Rightarrow> nat \<Rightarrow> nat option"

definition literal :: matcher where
  "literal r s i =
     (if take (length (source r)) (drop i s) = source r then Some (i + length (source r))
      else None)"

definition global :: "regexp \<Rightarrow> bool" where
  "global r \<longleftrightarrow> CHR ''g'' \<in> set (flags r)"

definition sticky :: "regexp \<Rightarrow> bool" where
  "sticky r \<longleftrightarrow> CHR ''y'' \<in> set (flags r)"

text \<open>The end of the first match that starts at one of the indices, tried in order.\<close>

primrec first_match :: "matcher \<Rightarrow> regexp \<Rightarrow> string \<Rightarrow> nat list \<Rightarrow> nat option" where
  "first_match M r s [] = None"
| "first_match M r s (i # is) =
     (case M r s i of Some e \<Rightarrow> Some e | None \<Rightarrow> first_match M r s is)"

text \<open>
  \<^verbatim>\<open>RegExpBuiltinExec\<close> of ECMA-262, as far as \<^verbatim>\<open>match\<close> needs it: whether there is a
  match, and the new \<^verbatim>\<open>lastIndex\<close>. Without the flags \<^verbatim>\<open>g\<close> and \<^verbatim>\<open>y\<close> the search starts at
  0 and \<^verbatim>\<open>lastIndex\<close> is left alone. With one of them it starts at \<^verbatim>\<open>lastIndex\<close>, which
  becomes the end of the match, or 0 when there is none. A sticky expression tries the
  start index only; the others try every index up to the length of the string.
\<close>

definition RegExpBuiltinExec :: "matcher \<Rightarrow> regexp \<Rightarrow> string \<Rightarrow> nat \<Rightarrow> bool \<times> nat" where
  "RegExpBuiltinExec M r s lastIndex =
     (let uses = (global r \<or> sticky r);
          start = (if uses then lastIndex else 0);
          indices = (if sticky r then (if start \<le> length s then [start] else [])
                     else [start ..< Suc (length s)])
      in case first_match M r s indices of
           None \<Rightarrow> (False, if uses then 0 else lastIndex)
         | Some e \<Rightarrow> (True, if uses then e else lastIndex))"

text \<open>
  \<^verbatim>\<open>String.prototype.match\<close> with a \<^verbatim>\<open>RegExp\<close>: whether the result is an array (and so
  true in a condition) or null, and the new \<^verbatim>\<open>lastIndex\<close>. A global expression is run
  from 0 until it fails, which leaves 0; the result is null when the first run fails.
  Any other expression is run once.
\<close>

definition string_match :: "matcher \<Rightarrow> regexp \<Rightarrow> string \<Rightarrow> nat \<Rightarrow> bool \<times> nat" where
  "string_match M r s lastIndex =
     (if global r then (fst (RegExpBuiltinExec M r s 0), 0)
      else RegExpBuiltinExec M r s lastIndex)"

text \<open>
  The \<^verbatim>\<open>match\<close> option is a \<^verbatim>\<open>RegExp\<close>, as the source documents it. The reduction carries
  the state of the engine with the changeset, and a throw carries it too.
\<close>

record format_opts = opts +
  match :: regexp

definition format_step ::
  "matcher \<Rightarrow> format_opts \<Rightarrow> lastIndexes \<times> changeset \<Rightarrow> string \<Rightarrow>
   string \<times> lastIndexes + lastIndexes \<times> changeset" where
  "format_step M opt acc field =
     (let (st, cs) = acc;
          (ok, value) = getChange field cs
      in if \<not> ok then Inr (st, cs)
         else case value of
           JStr s \<Rightarrow>
             let (found, lastIndex) = string_match M (match opt) s (st (ident (match opt)));
                 st' = st(ident (match opt) := lastIndex)
             in if found then Inr (st', cs)
                else Inr (st', putError field
                       [(''message'', AStr (default_to ''has invalid format'' (message opt))),
                        (''validation'', AStr ''format''),
                        (''match'', AVal (JRegExp (match opt)))]
                       cs)
         | _ \<Rightarrow> Inl (''Invalid type of '' @ field @ ''. Valid types: string.'', st))"

definition format ::
  "matcher \<Rightarrow> format_opts \<Rightarrow> lastIndexes \<Rightarrow> changeset \<Rightarrow>
   string \<times> lastIndexes + lastIndexes \<times> changeset" where
  "format M opt st cs = reduce (format_step M opt) (fields_opt opt) (st, cs)"

subsection \<open>The numeric comparisons\<close>

text \<open>
  \<^verbatim>\<open>number\<close> is an integer; the pending value it is compared with is any value.
\<close>

record number_opts = opts +
  number :: int

text \<open>
  The five validators differ in the operator, the default message and the tag only; the
  body they share is \<open>compare_step\<close>, given the outcome of the comparison.
\<close>

definition compare_step ::
  "(jsval \<Rightarrow> int \<Rightarrow> bool) \<Rightarrow> string \<Rightarrow> string \<Rightarrow> number_opts \<Rightarrow> changeset \<Rightarrow> string \<Rightarrow> changeset" where
  "compare_step holds msg tag opt cs field =
     (let (ok, value) = getChange field cs
      in if \<not> ok then cs
         else if holds value (number opt) then cs
         else putError field
                [(''message'', AStr msg),
                 (''validation'', AStr tag),
                 (''number'', ANum (number opt))]
                cs)"

definition lessThan_validator :: "(jsval \<Rightarrow> jsnum) \<Rightarrow> number_opts \<Rightarrow> changeset \<Rightarrow> changeset" where
  "lessThan_validator h opt cs =
     (let msg = or_default (message opt) (''must be less than '' @ number_to_string (number opt))
      in foldl (compare_step (js_lt h) msg ''less than'' opt) cs (fields_opt opt))"

definition greaterThan_validator :: "(jsval \<Rightarrow> jsnum) \<Rightarrow> number_opts \<Rightarrow> changeset \<Rightarrow> changeset" where
  "greaterThan_validator h opt cs =
     (let msg = or_default (message opt) (''must be greater than '' @ number_to_string (number opt))
      in foldl (compare_step (js_gt h) msg ''greater than'' opt) cs (fields_opt opt))"

definition lessThanOrEqualTo :: "(jsval \<Rightarrow> jsnum) \<Rightarrow> number_opts \<Rightarrow> changeset \<Rightarrow> changeset" where
  "lessThanOrEqualTo h opt cs =
     (let msg = or_default (message opt)
                      (''must be less than or equal to '' @ number_to_string (number opt))
      in foldl (compare_step (js_le h) msg ''less than or equal to'' opt) cs (fields_opt opt))"

definition greaterThanOrEqualTo :: "(jsval \<Rightarrow> jsnum) \<Rightarrow> number_opts \<Rightarrow> changeset \<Rightarrow> changeset" where
  "greaterThanOrEqualTo h opt cs =
     (let msg = or_default (message opt)
                      (''must be greater than or equal to '' @ number_to_string (number opt))
      in foldl (compare_step (js_ge h) msg ''greater than or equal to'' opt) cs (fields_opt opt))"

definition equalTo :: "(jsval \<Rightarrow> jsnum) \<Rightarrow> number_opts \<Rightarrow> changeset \<Rightarrow> changeset" where
  "equalTo h opt cs =
     (let msg = or_default (message opt) (''must be equal to '' @ number_to_string (number opt))
      in foldl (compare_step (js_eq h) msg ''equal to'' opt) cs (fields_opt opt))"

subsection \<open>The library\<close>

text \<open>
  The exported object: one entry per validator, each with its options bound. Applying
  an entry to a changeset, in a state of the engine, either throws or returns a
  changeset, and leaves a state. Only \<^verbatim>\<open>format\<close> changes the state.
\<close>

datatype bound_validator =
    Required opts
  | Length length_opts
  | Acceptance opts
  | Change change_opts
  | Confirmation opts
  | Exclusion exclusion_opts
  | Inclusion inclusion_opts
  | Format format_opts
  | LessThan number_opts
  | GreaterThan number_opts
  | LessThanOrEqualTo number_opts
  | GreaterThanOrEqualTo number_opts
  | EqualTo number_opts

definition in_state ::
  "lastIndexes \<Rightarrow> string + changeset \<Rightarrow> string \<times> lastIndexes + lastIndexes \<times> changeset" where
  "in_state st result =
     (case result of Inl thrown \<Rightarrow> Inl (thrown, st) | Inr cs \<Rightarrow> Inr (st, cs))"

fun apply_validator ::
  "(jsval \<Rightarrow> jsnum) \<Rightarrow> matcher \<Rightarrow> bound_validator \<Rightarrow> lastIndexes \<Rightarrow> changeset \<Rightarrow>
   string \<times> lastIndexes + lastIndexes \<times> changeset" where
  "apply_validator h M (Required opt) st cs = Inr (st, required opt cs)"
| "apply_validator h M (Length opt) st cs = in_state st (length_validator opt cs)"
| "apply_validator h M (Acceptance opt) st cs = in_state st (acceptance opt cs)"
| "apply_validator h M (Change opt) st cs = Inr (st, change opt cs)"
| "apply_validator h M (Confirmation opt) st cs = Inr (st, confirmation opt cs)"
| "apply_validator h M (Exclusion opt) st cs = Inr (st, exclusion opt cs)"
| "apply_validator h M (Inclusion opt) st cs = Inr (st, inclusion opt cs)"
| "apply_validator h M (Format opt) st cs = format M opt st cs"
| "apply_validator h M (LessThan opt) st cs = Inr (st, lessThan_validator h opt cs)"
| "apply_validator h M (GreaterThan opt) st cs = Inr (st, greaterThan_validator h opt cs)"
| "apply_validator h M (LessThanOrEqualTo opt) st cs = Inr (st, lessThanOrEqualTo h opt cs)"
| "apply_validator h M (GreaterThanOrEqualTo opt) st cs =
     Inr (st, greaterThanOrEqualTo h opt cs)"
| "apply_validator h M (EqualTo opt) st cs = Inr (st, equalTo h opt cs)"

subsection \<open>How a changeset can differ from an earlier one\<close>

text \<open>
  Two relations for the proofs about the whole library: \<open>appended c c'\<close> when \<open>c'\<close> is
  \<open>c\<close> with one more error, and \<open>flagged F c c'\<close> when \<open>c'\<close> is \<open>c\<close> with one more error
  on a field of \<open>F\<close> and the change of that field set to null, as \<^verbatim>\<open>required\<close> does.
\<close>

definition appended :: "changeset \<Rightarrow> changeset \<Rightarrow> bool" where
  "appended c c' \<longleftrightarrow> (\<exists>f d. c' = putError f d c)"

definition flagged :: "string set \<Rightarrow> changeset \<Rightarrow> changeset \<Rightarrow> bool" where
  "flagged F c c' \<longleftrightarrow> (\<exists>f\<in>F. \<exists>d. c' = putChange f JNull (putError f d c))"

section \<open>Properties of the accessors\<close>

lemma getChange_putError [simp]: "getChange f (putError g e cs) = getChange f cs"
  by (simp add: getChange_def putError_def)

lemma getField_putError [simp]: "getField f (putError g e cs) = getField f cs"
  by (simp add: getField_def putError_def)

lemma getField_putChange [simp]: "getField f (putChange g v cs) = getField f cs"
  by (simp add: getField_def putChange_def)

lemma getChange_putChange:
  "getChange f (putChange g v cs) = (if f = g then (v \<noteq> JNull, v) else getChange f cs)"
  by (simp add: getChange_def putChange_def)

lemma errors_of_putError:
  "errors_of (putError g e cs) f = (if f = g then errors_of cs f @ [e] else errors_of cs f)"
  by (simp add: errors_of_def putError_def)

lemma errors_of_putChange [simp]: "errors_of (putChange g v cs) f = errors_of cs f"
  by (simp add: errors_of_def putChange_def)

lemma data_putError [simp]: "data (putError g e cs) = data cs"
  by (simp add: putError_def)

lemma changes_putError [simp]: "changes (putError g e cs) = changes cs"
  by (simp add: putError_def)

lemma data_putChange [simp]: "data (putChange g v cs) = data cs"
  by (simp add: putChange_def)

lemma changes_putChange [simp]: "changes (putChange g v cs) = (changes cs)(g \<mapsto> v)"
  by (simp add: putChange_def)

lemma getField_absent: "\<not> fst (getField f cs) \<Longrightarrow> getField f cs = (False, JUndefined)"
  by (auto simp: getField_def split: option.splits)

lemma getChange_cong: "changes c' = changes c \<Longrightarrow> getChange f c' = getChange f c"
  by (simp add: getChange_def)

section \<open>Reductions over the fields\<close>

text \<open>
  A reduction that cannot throw is a \<^const>\<open>foldl\<close>. A property that every step keeps
  and that is reflexive and transitive holds between the input and the output; the
  reflexive and transitive closure of a relation is such a property.
\<close>

lemma reduce_single [simp]: "reduce stp [f] cs = stp cs f"
  by (cases "stp cs f") simp_all

lemma reduce_total: "reduce (\<lambda>c f. Inr (stp c f)) fs cs = Inr (foldl stp cs fs)"
  by (induction fs arbitrary: cs) simp_all

lemma reduce_invariant:
  assumes step: "\<And>c f c'. f \<in> set fs \<Longrightarrow> stp c f = Inr c' \<Longrightarrow> R c c'"
    and refl: "\<And>c. R c c"
    and trans: "\<And>a b c. R a b \<Longrightarrow> R b c \<Longrightarrow> R a c"
  shows "reduce stp fs cs = Inr cs' \<Longrightarrow> R cs cs'"
proof -
  have "set gs \<subseteq> set fs \<Longrightarrow> reduce stp gs c0 = Inr c1 \<Longrightarrow> R c0 c1" for gs c0 c1
  proof (induction gs arbitrary: c0)
    case Nil
    then show ?case by (simp add: refl)
  next
    case (Cons g gs)
    from Cons.prems(2) obtain c where c: "stp c0 g = Inr c" and r: "reduce stp gs c = Inr c1"
      by (auto split: sum.splits)
    have "R c0 c" using step [of g c0 c] c Cons.prems(1) by simp
    moreover have "R c c1" using Cons.IH [OF _ r] Cons.prems(1) by simp
    ultimately show ?case by (rule trans)
  qed
  from this [of fs cs cs'] show "reduce stp fs cs = Inr cs' \<Longrightarrow> R cs cs'" by simp
qed

lemma reduce_star:
  assumes "\<And>c f c'. f \<in> set fs \<Longrightarrow> stp c f = Inr c' \<Longrightarrow> S\<^sup>*\<^sup>* c c'"
    and "reduce stp fs cs = Inr cs'"
  shows "S\<^sup>*\<^sup>* cs cs'"
proof (rule reduce_invariant [where R = "S\<^sup>*\<^sup>*" and stp = stp and fs = fs])
  show "reduce stp fs cs = Inr cs'" by (rule assms(2))
  show "S\<^sup>*\<^sup>* c c'" if "f \<in> set fs" and "stp c f = Inr c'" for c f c'
    using that by (rule assms(1))
  show "S\<^sup>*\<^sup>* c c" for c by simp
  show "S\<^sup>*\<^sup>* a c" if "S\<^sup>*\<^sup>* a b" and "S\<^sup>*\<^sup>* b c" for a b c
    using that by (rule rtranclp_trans)
qed

lemma foldl_star:
  assumes "\<And>c f. f \<in> set fs \<Longrightarrow> S\<^sup>*\<^sup>* c (stp c f)"
  shows "S\<^sup>*\<^sup>* cs (foldl stp cs fs)"
proof (rule reduce_star [where stp = "\<lambda>c f. Inr (stp c f)" and fs = fs])
  show "reduce (\<lambda>c f. Inr (stp c f)) fs cs = Inr (foldl stp cs fs)"
    by (rule reduce_total)
  show "S\<^sup>*\<^sup>* c c'" if "f \<in> set fs" and "Inr (stp c f) = Inr c'" for c f c'
    using that assms [of f c] by simp
qed

text \<open>
  When no step writes to \<^verbatim>\<open>changes\<close> and a step throws on a condition on the pending
  change of its field, the reduction throws exactly when some field meets the condition.
\<close>

lemma reduce_throws_on:
  assumes keep: "\<And>c f c'. stp c f = Inr c' \<Longrightarrow> changes (p c') = changes (p c)"
    and thr: "\<And>c f. isl (stp c f) \<longleftrightarrow> bad (getChange f (p c))"
  shows "isl (reduce stp fs c) \<longleftrightarrow> (\<exists>f\<in>set fs. bad (getChange f (p c)))"
proof (induction fs arbitrary: c)
  case Nil
  then show ?case by simp
next
  case (Cons f fs)
  show ?case
  proof (cases "stp c f")
    case (Inl thrown)
    then have "bad (getChange f (p c))" using thr [of c f] by simp
    with Inl show ?thesis by simp
  next
    case (Inr c')
    then have "\<not> bad (getChange f (p c))" using thr [of c f] by simp
    moreover have "getChange g (p c') = getChange g (p c)" for g
      using keep [OF Inr] by (rule getChange_cong)
    ultimately show ?thesis using Inr Cons.IH [of c'] by simp
  qed
qed

lemma reduce_throws_iff:
  assumes "\<And>c f c'. stp c f = Inr c' \<Longrightarrow> changes c' = changes c"
    and "\<And>c f. isl (stp c f) \<longleftrightarrow> bad (getChange f c)"
  shows "isl (reduce stp fs cs) \<longleftrightarrow> (\<exists>f\<in>set fs. bad (getChange f cs))"
  using assms by (rule reduce_throws_on [where p = "\<lambda>c. c"])

text \<open>
  When no step writes to \<^verbatim>\<open>changes\<close>, a step touches the errors of its own field only,
  and the step of \<open>f\<close> appends \<open>new\<close>, then a reduction over distinct fields, \<open>f\<close> among
  them, appends \<open>new\<close> to the errors of \<open>f\<close>.
\<close>

lemma reduce_errors_on:
  assumes keep: "\<And>c g c'. stp c g = Inr c' \<Longrightarrow> changes (p c') = changes (p c)"
    and other: "\<And>c g c'. g \<noteq> f \<Longrightarrow> stp c g = Inr c' \<Longrightarrow>
                  errors_of (p c') f = errors_of (p c) f"
    and at: "\<And>c c'. changes (p c) = changes (p c0) \<Longrightarrow> stp c f = Inr c' \<Longrightarrow>
               errors_of (p c') f = errors_of (p c) f @ new"
    and "distinct fs" and "f \<in> set fs" and "reduce stp fs c0 = Inr c1"
  shows "errors_of (p c1) f = errors_of (p c0) f @ new"
proof -
  have "distinct gs \<Longrightarrow> changes (p c) = changes (p c0) \<Longrightarrow> reduce stp gs c = Inr c' \<Longrightarrow>
      errors_of (p c') f = errors_of (p c) f @ (if f \<in> set gs then new else [])" for gs c c'
  proof (induction gs arbitrary: c)
    case Nil
    then show ?case by simp
  next
    case (Cons g gs)
    from Cons.prems(3) obtain b where b: "stp c g = Inr b" and r: "reduce stp gs b = Inr c'"
      by (auto split: sum.splits)
    have ch: "changes (p b) = changes (p c0)" using keep [OF b] Cons.prems(2) by simp
    have rest: "errors_of (p c') f = errors_of (p b) f @ (if f \<in> set gs then new else [])"
      using Cons.IH [OF _ ch r] Cons.prems(1) by simp
    show ?case
    proof (cases "g = f")
      case True
      then have "f \<notin> set gs" using Cons.prems(1) by simp
      moreover have "errors_of (p b) f = errors_of (p c) f @ new"
        using at [OF Cons.prems(2)] b True by simp
      ultimately show ?thesis using rest True by simp
    next
      case False
      then have "errors_of (p b) f = errors_of (p c) f" using other [OF _ b] by simp
      with rest False show ?thesis by simp
    qed
  qed
  from this [of fs c0 c1] assms(4-6) show ?thesis by simp
qed

lemma reduce_errors_at:
  assumes "\<And>c g c'. stp c g = Inr c' \<Longrightarrow> changes c' = changes c"
    and "\<And>c g c'. g \<noteq> f \<Longrightarrow> stp c g = Inr c' \<Longrightarrow> errors_of c' f = errors_of c f"
    and "\<And>c c'. changes c = changes cs \<Longrightarrow> stp c f = Inr c' \<Longrightarrow>
               errors_of c' f = errors_of c f @ new"
    and "distinct fs" and "f \<in> set fs" and "reduce stp fs cs = Inr cs'"
  shows "errors_of cs' f = errors_of cs f @ new"
  using assms by (rule reduce_errors_on [where p = "\<lambda>c. c"])

text \<open>A field that is not among those of the reduction keeps its errors.\<close>

lemma reduce_errors_untouched:
  assumes other: "\<And>c g c'. g \<noteq> f \<Longrightarrow> stp c g = Inr c' \<Longrightarrow>
                    errors_of (p c') f = errors_of (p c) f"
    and "f \<notin> set fs" and "reduce stp fs c0 = Inr c1"
  shows "errors_of (p c1) f = errors_of (p c0) f"
  using assms(2,3)
proof (induction fs arbitrary: c0)
  case Nil
  then show ?case by simp
next
  case (Cons g gs)
  from Cons.prems(2) obtain b where b: "stp c0 g = Inr b" and r: "reduce stp gs b = Inr c1"
    by (auto split: sum.splits)
  have "errors_of (p b) f = errors_of (p c0) f"
    using other [OF _ b] Cons.prems(1) by auto
  moreover have "errors_of (p c1) f = errors_of (p b) f"
    using Cons.IH [OF _ r] Cons.prems(1) by simp
  ultimately show ?case by simp
qed

lemma foldl_errors_at:
  assumes keep: "\<And>c g. changes (stp c g) = changes c"
    and other: "\<And>c g. g \<noteq> f \<Longrightarrow> errors_of (stp c g) f = errors_of c f"
    and at: "\<And>c. changes c = changes cs \<Longrightarrow> errors_of (stp c f) f = errors_of c f @ new"
    and "distinct fs" and "f \<in> set fs"
  shows "errors_of (foldl stp cs fs) f = errors_of cs f @ new"
proof (rule reduce_errors_at [where stp = "\<lambda>c g. Inr (stp c g)" and fs = fs and cs = cs])
  show "reduce (\<lambda>c g. Inr (stp c g)) fs cs = Inr (foldl stp cs fs)"
    by (rule reduce_total)
qed (use assms in auto)

section \<open>What a step returns\<close>

lemma required_step_cases:
  "required_step opt cs f = cs \<or>
   (\<exists>d. required_step opt cs f = putChange f JNull (putError f d cs))"
  by (cases "getChange f cs"; cases "getField f cs")
     (auto simp: required_step_def pipe_def)

lemma length_step_cases:
  "length_step opt cs f = Inr c' \<Longrightarrow> c' = cs \<or> (\<exists>d. c' = putError f d cs)"
  by (cases "getChange f cs")
     (auto simp: length_step_def Let_def split: if_splits option.splits prod.splits)

lemma acceptance_step_cases:
  "acceptance_step opt cs f = Inr c' \<Longrightarrow> c' = cs \<or> (\<exists>d. c' = putError f d cs)"
  by (cases "getChange f cs") (auto simp: acceptance_step_def split: if_splits)

lemma format_step_cases:
  "format_step M opt (st, cs) f = Inr (st', c') \<Longrightarrow> c' = cs \<or> (\<exists>d. c' = putError f d cs)"
  by (cases "getChange f cs")
     (auto simp: format_step_def Let_def split: if_splits jsval.splits prod.splits)

lemma change_step_cases:
  "\<exists>ds. change_step opt cs f = foldl (\<lambda>c e. putError f e c) cs ds"
proof (cases "fst (getChange f cs)")
  case True
  then show ?thesis by (cases "getChange f cs") (auto simp: change_step_def)
next
  case False
  then have "change_step opt cs f = foldl (\<lambda>c e. putError f e c) cs []"
    by (cases "getChange f cs") (simp add: change_step_def)
  then show ?thesis by blast
qed

lemma confirmation_step_cases:
  "confirmation_step opt cs f = cs \<or> (\<exists>d. confirmation_step opt cs f = putError f d cs)"
  by (cases "getChange f cs"; cases "getChange (f @ ''Confirmation'') cs")
     (auto simp: confirmation_step_def)

lemma exclusion_step_cases:
  "exclusion_step opt cs f = cs \<or> (\<exists>d. exclusion_step opt cs f = putError f d cs)"
  by (cases "getChange f cs") (auto simp: exclusion_step_def)

lemma inclusion_step_cases:
  "inclusion_step opt cs f = cs \<or> (\<exists>d. inclusion_step opt cs f = putError f d cs)"
  by (cases "getChange f cs") (auto simp: inclusion_step_def)

lemma compare_step_cases:
  "compare_step holds msg tag opt cs f = cs \<or>
   (\<exists>d. compare_step holds msg tag opt cs f = putError f d cs)"
  by (cases "getChange f cs") (auto simp: compare_step_def)

lemma length_step_frame:
  assumes "length_step opt c g = Inr c'"
  shows "changes c' = changes c" and "g \<noteq> f \<Longrightarrow> errors_of c' f = errors_of c f"
  using length_step_cases [OF assms] by (auto simp: errors_of_putError)

lemma exclusion_step_frame:
  "changes (exclusion_step opt c g) = changes c"
  "g \<noteq> f \<Longrightarrow> errors_of (exclusion_step opt c g) f = errors_of c f"
  using exclusion_step_cases [of opt c g] by (auto simp: errors_of_putError)

lemma inclusion_step_frame:
  "changes (inclusion_step opt c g) = changes c"
  "g \<noteq> f \<Longrightarrow> errors_of (inclusion_step opt c g) f = errors_of c f"
  using inclusion_step_cases [of opt c g] by (auto simp: errors_of_putError)

lemma compare_step_frame:
  "changes (compare_step holds msg tag opt c g) = changes c"
  "g \<noteq> f \<Longrightarrow> errors_of (compare_step holds msg tag opt c g) f = errors_of c f"
  using compare_step_cases [of holds msg tag opt c g] by (auto simp: errors_of_putError)

section \<open>required\<close>

lemma valid_JUndefined [simp]: "\<not> valid JUndefined"
  by (simp add: valid_def)

lemma valid_JNull [simp]: "\<not> valid JNull"
  by (simp add: valid_def)

text \<open>
  A field with neither a pending change nor a persisted value is flagged: the error is
  put first, the change second.
\<close>

lemma required_step_absent:
  assumes "\<not> fst (getChange f cs)" and "\<not> fst (getField f cs)"
  shows "required_step opt cs f =
    putChange f JNull (putError f
      [(''message'', AStr (default_to ''can't be blank'' (message opt))),
       (''validation'', AStr ''required'')] cs)"
  using assms getField_absent [of f cs]
  by (cases "getChange f cs") (simp add: required_step_def pipe_def)

text \<open>
  Claim C3. For every field \<open>f\<close>, \<^verbatim>\<open>required({fields: [f]})\<close> on a changeset with no
  pending change and no persisted value for \<open>f\<close> adds exactly one error to the errors
  of \<open>f\<close>, tagged \<^verbatim>\<open>required\<close> with the default message "can't be blank", and sets the
  change of \<open>f\<close> to null. On a changeset that had no error on \<open>f\<close>, that error is the
  only one.
\<close>

theorem required_flags_missing_field:
  assumes "\<not> fst (getChange f cs)" and "\<not> fst (getField f cs)"
  shows "errors_of (required \<lparr>message = None, fields_opt = [f]\<rparr> cs) f =
           errors_of cs f @
             [[(''message'', AStr ''can't be blank''), (''validation'', AStr ''required'')]]
       \<and> changes (required \<lparr>message = None, fields_opt = [f]\<rparr> cs) f = Some JNull"
  using required_step_absent [OF assms, of "\<lparr>message = None, fields_opt = [f]\<rparr>"]
  by (simp add: required_def errors_of_putError default_to_def)

theorem required_flags_missing_field_witness:
  "\<not> fst (getChange ''title'' \<lparr>data = Map.empty, changes = Map.empty, errors = Map.empty\<rparr>)
   \<and> \<not> fst (getField ''title'' \<lparr>data = Map.empty, changes = Map.empty, errors = Map.empty\<rparr>)
   \<and> errors_of (required \<lparr>message = None, fields_opt = [''title'']\<rparr>
         \<lparr>data = Map.empty, changes = Map.empty, errors = Map.empty\<rparr>) ''title'' =
       [[(''message'', AStr ''can't be blank''), (''validation'', AStr ''required'')]]
   \<and> changes (required \<lparr>message = None, fields_opt = [''title'']\<rparr>
         \<lparr>data = Map.empty, changes = Map.empty, errors = Map.empty\<rparr>) ''title'' = Some JNull"
  using required_flags_missing_field
    [of "''title''" "\<lparr>data = Map.empty, changes = Map.empty, errors = Map.empty\<rparr>"]
  by (simp add: getChange_def getField_def errors_of_def)

section \<open>length\<close>

lemma length_step_absent:
  "\<not> fst (getChange f cs) \<Longrightarrow> length_step opt cs f = Inr cs"
  by (cases "getChange f cs") (simp add: length_step_def)

text \<open>
  What \<open>length_step\<close> does on a string and on an array. The three assignments run in
  the order of the source, so the last test that holds decides the message; every
  message is a non-empty string, so a message that was assigned is an error appended.
\<close>

lemma length_step_string:
  assumes "getChange f cs = (True, JStr s)"
  shows "length_step opt cs f =
    (let len = int (length s);
         m1 = (if min_opt opt = max_opt opt \<and> min_opt opt = len
               then Some (''should be '' @ number_to_string (min_opt opt) @ '' character(s)'')
               else None);
         m2 = (if len < min_opt opt
               then Some (''should be at least '' @ number_to_string (min_opt opt) @
                          '' character(s)'')
               else m1);
         m3 = (if len > max_opt opt
               then Some (''should be at most '' @ number_to_string (max_opt opt) @
                          '' character(s)'')
               else m2)
     in case m3 of
          None \<Rightarrow> Inr cs
        | Some msg \<Rightarrow>
            Inr (putError f
              [(''message'', AStr (or_default (message opt) msg)),
               (''validation'', AStr ''length''),
               (''min'', ANum (min_opt opt)),
               (''max'', ANum (max_opt opt))] cs))"
  using assms by (simp add: length_step_def length_messages_def Let_def)

lemma length_step_array:
  assumes "getChange f cs = (True, JArr r xs)"
  shows "length_step opt cs f =
    (let len = int (length xs);
         m1 = (if min_opt opt = max_opt opt \<and> min_opt opt = len
               then Some (''should have '' @ number_to_string (min_opt opt) @ '' items(s)'')
               else None);
         m2 = (if len < min_opt opt
               then Some (''should have at least '' @ number_to_string (min_opt opt) @
                          '' items(s)'')
               else m1);
         m3 = (if len > max_opt opt
               then Some (''should have at most '' @ number_to_string (max_opt opt) @
                          '' items(s)'')
               else m2)
     in case m3 of
          None \<Rightarrow> Inr cs
        | Some msg \<Rightarrow>
            Inr (putError f
              [(''message'', AStr (or_default (message opt) msg)),
               (''validation'', AStr ''length''),
               (''min'', ANum (min_opt opt)),
               (''max'', ANum (max_opt opt))] cs))"
  using assms by (simp add: length_step_def length_messages_def Let_def)

text \<open>
  Claim C1 says that a pending string whose length is exactly \<open>min = max\<close> gets no
  error. The source assigns the message \<^verbatim>\<open>messages.is(min)\<close> under the test
  \<^verbatim>\<open>min == max && min == length\<close>, that is when the length is the required one, and then
  appends an error whenever a message was assigned. So, for distinct fields with \<open>f\<close>
  among them, the validator flags every pending string of \<open>f\<close> that has exactly the
  required length, with "should be n character(s)".
\<close>

theorem length_flags_exact_match:
  assumes "getChange f cs = (True, JStr s)" and "int (length s) = n"
    and "f \<in> set fs" and "distinct fs"
    and "length_validator \<lparr>message = None, fields_opt = fs, min_opt = n, max_opt = n\<rparr> cs
           = Inr cs'"
  shows "errors_of cs' f = errors_of cs f @
       [[(''message'', AStr (''should be '' @ number_to_string n @ '' character(s)'')),
         (''validation'', AStr ''length''), (''min'', ANum n), (''max'', ANum n)]]"
proof -
  let ?opt = "\<lparr>message = None, fields_opt = fs, min_opt = n, max_opt = n\<rparr>"
  have run: "reduce (length_step ?opt) fs cs = Inr cs'"
    using assms(5) by (simp add: length_validator_def)
  have "errors_of c' f = errors_of c f @
       [[(''message'', AStr (''should be '' @ number_to_string n @ '' character(s)'')),
         (''validation'', AStr ''length''), (''min'', ANum n), (''max'', ANum n)]]"
    if "changes c = changes cs" and "length_step ?opt c f = Inr c'" for c c'
  proof -
    have "getChange f c = (True, JStr s)"
      using that(1) assms(1) getChange_cong [of c cs f] by simp
    from length_step_string [OF this, of ?opt] that(2) assms(2) show ?thesis
      by (auto simp: Let_def errors_of_putError or_default_def)
  qed
  then show ?thesis
    using reduce_errors_at [of "length_step ?opt" f cs _ fs cs'] run assms(3,4)
      length_step_frame [of ?opt]
    by blast
qed

theorem length_flags_exact_match_witness:
  "\<exists>cs'. length_validator \<lparr>message = None, fields_opt = [''name''], min_opt = 3, max_opt = 3\<rparr>
     \<lparr>data = Map.empty, changes = [''name'' \<mapsto> JStr ''abc''], errors = Map.empty\<rparr> = Inr cs'
   \<and> errors_of cs' ''name'' =
       [[(''message'', AStr ''should be 3 character(s)''),
        (''validation'', AStr ''length''), (''min'', ANum 3), (''max'', ANum 3)]]"
proof -
  let ?cs = "\<lparr>data = Map.empty, changes = [''name'' \<mapsto> JStr ''abc''], errors = Map.empty\<rparr>"
  let ?opt = "\<lparr>message = None, fields_opt = [''name''], min_opt = 3, max_opt = 3\<rparr>"
  obtain cs' where run: "length_validator ?opt ?cs = Inr cs'"
    by (simp add: length_validator_def length_step_def getChange_def length_messages_def)
  have "getChange ''name'' ?cs = (True, JStr ''abc'')" and "int (length ''abc'') = 3"
    and "''name'' \<in> set [''name'']" and "distinct [''name'']"
    by (simp_all add: getChange_def)
  from length_flags_exact_match [OF this run] run show ?thesis
    by (simp add: errors_of_def number_to_string_def digits.simps digit_char_def)
qed

text \<open>
  Claim C2. On every changeset with no pending change and no persisted value for
  \<^verbatim>\<open>title\<close>, \<^verbatim>\<open>pipe(required({fields: ['title']}), length({fields: ['title'], min: 5,
  max: 100}))\<close> returns what \<^verbatim>\<open>required\<close> returned: \<^verbatim>\<open>length\<close> neither throws nor appends,
  since the change that \<^verbatim>\<open>required\<close> set to null is not a pending change for
  \<^verbatim>\<open>getChange\<close>. The errors of \<^verbatim>\<open>title\<close> are those it had, followed by the one error
  tagged \<^verbatim>\<open>required\<close>.
\<close>

theorem required_then_length:
  assumes "\<not> fst (getChange ''title'' cs)" and "\<not> fst (getField ''title'' cs)"
  shows "pipe (required \<lparr>message = None, fields_opt = [''title'']\<rparr>)
              (length_validator
                 \<lparr>message = None, fields_opt = [''title''], min_opt = 5, max_opt = 100\<rparr>) cs
           = Inr (required \<lparr>message = None, fields_opt = [''title'']\<rparr> cs)
       \<and> errors_of (required \<lparr>message = None, fields_opt = [''title'']\<rparr> cs) ''title'' =
           errors_of cs ''title'' @
             [[(''message'', AStr ''can't be blank''), (''validation'', AStr ''required'')]]"
proof -
  let ?r = "required \<lparr>message = None, fields_opt = [''title'']\<rparr> cs"
  have r: "?r = putChange ''title'' JNull (putError ''title''
      [(''message'', AStr ''can't be blank''), (''validation'', AStr ''required'')] cs)"
    using required_step_absent [OF assms, of "\<lparr>message = None, fields_opt = [''title'']\<rparr>"]
    by (simp add: required_def default_to_def)
  have "\<not> fst (getChange ''title'' ?r)"
    by (simp add: r getChange_putChange)
  then have "length_validator
      \<lparr>message = None, fields_opt = [''title''], min_opt = 5, max_opt = 100\<rparr> ?r = Inr ?r"
    by (simp add: length_validator_def length_step_absent)
  moreover have "errors_of ?r ''title'' =
      errors_of cs ''title'' @
        [[(''message'', AStr ''can't be blank''), (''validation'', AStr ''required'')]]"
    by (simp add: r errors_of_putError)
  ultimately show ?thesis
    by (simp add: pipe_def)
qed

theorem required_then_length_witness:
  "\<not> fst (getChange ''title'' \<lparr>data = Map.empty, changes = Map.empty, errors = Map.empty\<rparr>)
   \<and> \<not> fst (getField ''title'' \<lparr>data = Map.empty, changes = Map.empty, errors = Map.empty\<rparr>)
   \<and> (\<exists>cs'. pipe (required \<lparr>message = None, fields_opt = [''title'']\<rparr>)
              (length_validator
                 \<lparr>message = None, fields_opt = [''title''], min_opt = 5, max_opt = 100\<rparr>)
              \<lparr>data = Map.empty, changes = Map.empty, errors = Map.empty\<rparr> = Inr cs'
          \<and> errors_of cs' ''title'' =
              [[(''message'', AStr ''can't be blank''), (''validation'', AStr ''required'')]])"
  using required_then_length
    [of "\<lparr>data = Map.empty, changes = Map.empty, errors = Map.empty\<rparr>"]
  by (simp add: getChange_def getField_def errors_of_def)

text \<open>
  Claim C6, as amended. Let the fields be distinct, \<open>f\<close> among them, and the call
  return. A pending string of \<open>f\<close> shorter than \<open>min\<close> and not longer than \<open>max\<close> gets an
  error tagged \<^verbatim>\<open>length\<close> that carries \<open>min\<close> and \<open>max\<close>, with the message "should be at
  least min character(s)"; a pending array longer than \<open>max\<close> gets one with the message
  "should have at most max items(s)". A non-empty \<^verbatim>\<open>message\<close> option replaces either
  text.
\<close>

theorem length_messages_by_kind:
  assumes "f \<in> set fs" and "distinct fs"
    and "length_validator \<lparr>message = custom, fields_opt = fs, min_opt = mn, max_opt = mx\<rparr> cs
           = Inr cs'"
  shows "(getChange f cs = (True, JStr s) \<and> int (length s) < mn \<and> int (length s) \<le> mx \<longrightarrow>
      errors_of cs' f = errors_of cs f @
        [[(''message'', AStr (or_default custom
             (''should be at least '' @ number_to_string mn @ '' character(s)''))),
          (''validation'', AStr ''length''), (''min'', ANum mn), (''max'', ANum mx)]])
   \<and> (getChange f cs = (True, JArr r xs) \<and> mx < int (length xs) \<longrightarrow>
      errors_of cs' f = errors_of cs f @
        [[(''message'', AStr (or_default custom
             (''should have at most '' @ number_to_string mx @ '' items(s)''))),
          (''validation'', AStr ''length''), (''min'', ANum mn), (''max'', ANum mx)]])"
proof (intro conjI impI)
  let ?opt = "\<lparr>message = custom, fields_opt = fs, min_opt = mn, max_opt = mx\<rparr>"
  have run: "reduce (length_step ?opt) fs cs = Inr cs'"
    using assms(3) by (simp add: length_validator_def)
  {
    assume a: "getChange f cs = (True, JStr s) \<and> int (length s) < mn \<and> int (length s) \<le> mx"
    have "errors_of c' f = errors_of c f @
        [[(''message'', AStr (or_default custom
             (''should be at least '' @ number_to_string mn @ '' character(s)''))),
          (''validation'', AStr ''length''), (''min'', ANum mn), (''max'', ANum mx)]]"
      if "changes c = changes cs" and "length_step ?opt c f = Inr c'" for c c'
    proof -
      have "getChange f c = (True, JStr s)"
        using that(1) a getChange_cong [of c cs f] by simp
      from length_step_string [OF this, of ?opt] that(2) a show ?thesis
        by (auto simp: Let_def errors_of_putError)
    qed
    then show "errors_of cs' f = errors_of cs f @
        [[(''message'', AStr (or_default custom
             (''should be at least '' @ number_to_string mn @ '' character(s)''))),
          (''validation'', AStr ''length''), (''min'', ANum mn), (''max'', ANum mx)]]"
      using reduce_errors_at [of "length_step ?opt" f cs _ fs cs'] run assms(1,2)
        length_step_frame [of ?opt]
      by blast
  }
  {
    assume a: "getChange f cs = (True, JArr r xs) \<and> mx < int (length xs)"
    have "errors_of c' f = errors_of c f @
        [[(''message'', AStr (or_default custom
             (''should have at most '' @ number_to_string mx @ '' items(s)''))),
          (''validation'', AStr ''length''), (''min'', ANum mn), (''max'', ANum mx)]]"
      if "changes c = changes cs" and "length_step ?opt c f = Inr c'" for c c'
    proof -
      have "getChange f c = (True, JArr r xs)"
        using that(1) a getChange_cong [of c cs f] by simp
      from length_step_array [OF this, of ?opt] that(2) a show ?thesis
        by (auto simp: Let_def errors_of_putError)
    qed
    then show "errors_of cs' f = errors_of cs f @
        [[(''message'', AStr (or_default custom
             (''should have at most '' @ number_to_string mx @ '' items(s)''))),
          (''validation'', AStr ''length''), (''min'', ANum mn), (''max'', ANum mx)]]"
      using reduce_errors_at [of "length_step ?opt" f cs _ fs cs'] run assms(1,2)
        length_step_frame [of ?opt]
      by blast
  }
qed

theorem length_messages_by_kind_witness:
  "\<exists>cs'. length_validator
       \<lparr>message = None, fields_opt = [''name'', ''tags''], min_opt = 3, max_opt = 5\<rparr>
       \<lparr>data = Map.empty,
         changes = [''name'' \<mapsto> JStr ''ab'',
                    ''tags'' \<mapsto> JArr 1 [JStr ''a'', JStr ''b'', JStr ''c'', JStr ''d'',
                                         JStr ''e'', JStr ''f'']],
         errors = Map.empty\<rparr> = Inr cs'
     \<and> errors_of cs' ''name'' =
         [[(''message'', AStr ''should be at least 3 character(s)''),
           (''validation'', AStr ''length''), (''min'', ANum 3), (''max'', ANum 5)]]
     \<and> errors_of cs' ''tags'' =
         [[(''message'', AStr ''should have at most 5 items(s)''),
           (''validation'', AStr ''length''), (''min'', ANum 3), (''max'', ANum 5)]]"
proof -
  let ?tags = "[JStr ''a'', JStr ''b'', JStr ''c'', JStr ''d'', JStr ''e'', JStr ''f'']"
  let ?cs = "\<lparr>data = Map.empty,
         changes = [''name'' \<mapsto> JStr ''ab'', ''tags'' \<mapsto> JArr 1 ?tags],
         errors = Map.empty\<rparr>"
  let ?opt = "\<lparr>message = None, fields_opt = [''name'', ''tags''], min_opt = 3, max_opt = 5\<rparr>"
  obtain cs' where run: "length_validator ?opt ?cs = Inr cs'"
    by (simp add: length_validator_def length_step_def getChange_def length_messages_def)
  have name: "getChange ''name'' ?cs = (True, JStr ''ab'')"
    and tags: "getChange ''tags'' ?cs = (True, JArr 1 ?tags)"
    by (simp_all add: getChange_def)
  have "errors_of cs' ''name'' = errors_of ?cs ''name'' @
        [[(''message'', AStr (or_default None
             (''should be at least '' @ number_to_string 3 @ '' character(s)''))),
          (''validation'', AStr ''length''), (''min'', ANum 3), (''max'', ANum 5)]]"
    using length_messages_by_kind [of "''name''" "[''name'', ''tags'']" None 3 5 ?cs cs' "''ab''"]
      run name by simp
  moreover have "errors_of cs' ''tags'' = errors_of ?cs ''tags'' @
        [[(''message'', AStr (or_default None
             (''should have at most '' @ number_to_string 5 @ '' items(s)''))),
          (''validation'', AStr ''length''), (''min'', ANum 3), (''max'', ANum 5)]]"
    using length_messages_by_kind [of "''tags''" "[''name'', ''tags'']" None 3 5 ?cs cs' _ 1 ?tags]
      run tags by simp
  ultimately show ?thesis
    using run
    by (simp add: errors_of_def or_default_def number_to_string_def digits.simps digit_char_def)
qed

text \<open>
  Claim C6 gives the message for arrays as "should be at most max items(s)". The
  source's messages for arrays start with "should have": six items under \<open>max = 5\<close>
  get "should have at most 5 items(s)".
\<close>

theorem length_array_message_counterexample:
  "length_validator \<lparr>message = None, fields_opt = [''tags''], min_opt = 2, max_opt = 5\<rparr>
      \<lparr>data = Map.empty,
        changes = [''tags'' \<mapsto> JArr 1 [JStr ''a'', JStr ''b'', JStr ''c'', JStr ''d'', JStr ''e'', JStr ''f'']],
        errors = Map.empty\<rparr> =
     Inr (putError ''tags''
          [(''message'', AStr ''should have at most 5 items(s)''),
           (''validation'', AStr ''length''), (''min'', ANum 2), (''max'', ANum 5)]
          \<lparr>data = Map.empty,
            changes = [''tags'' \<mapsto> JArr 1 [JStr ''a'', JStr ''b'', JStr ''c'', JStr ''d'', JStr ''e'', JStr ''f'']],
            errors = Map.empty\<rparr>)
   \<and> ''should have at most 5 items(s)'' \<noteq> ''should be at most 5 items(s)''"
  by (simp add: length_validator_def length_step_def getChange_def length_messages_def
      or_default_def number_to_string_def digits.simps digit_char_def)

section \<open>Misuse and failures\<close>

lemma length_step_changes: "length_step opt c f = Inr c' \<Longrightarrow> changes c' = changes c"
  by (cases "getChange f c")
     (auto simp: length_step_def Let_def split: if_splits option.splits prod.splits)

lemma length_step_isl:
  "isl (length_step opt c f) \<longleftrightarrow>
     fst (getChange f c) \<and>
     \<not> (typeof (snd (getChange f c)) = ''string'' \<or> isArray (snd (getChange f c)))"
  by (cases "getChange f c")
     (auto simp: length_step_def Let_def split: if_splits option.splits prod.splits)

lemma acceptance_step_changes: "acceptance_step opt c f = Inr c' \<Longrightarrow> changes c' = changes c"
  by (cases "getChange f c") (auto simp: acceptance_step_def split: if_splits)

lemma acceptance_step_isl:
  "isl (acceptance_step opt c f) \<longleftrightarrow>
     fst (getChange f c) \<and> typeof (snd (getChange f c)) \<noteq> ''boolean''"
  by (cases "getChange f c") (auto simp: acceptance_step_def split: if_splits)

lemma format_step_changes:
  "format_step M opt a f = Inr a' \<Longrightarrow> changes (snd a') = changes (snd a)"
  using format_step_cases [of M opt "fst a" "snd a" f "fst a'" "snd a'"] by auto

lemma format_step_isl:
  "isl (format_step M opt a f) \<longleftrightarrow>
     fst (getChange f (snd a)) \<and> typeof (snd (getChange f (snd a))) \<noteq> ''string''"
  by (cases a; cases "getChange f (snd a)")
     (auto simp: format_step_def Let_def split: if_splits jsval.splits prod.splits)

text \<open>The three validators throw exactly on a pending change of the wrong type.\<close>

lemma length_throws:
  "isl (length_validator lo cs) \<longleftrightarrow>
     (\<exists>f\<in>set (fields_opt lo). fst (getChange f cs) \<and>
        \<not> (typeof (snd (getChange f cs)) = ''string'' \<or> isArray (snd (getChange f cs))))"
  unfolding length_validator_def
  by (rule reduce_throws_iff
        [where bad = "\<lambda>p. fst p \<and> \<not> (typeof (snd p) = ''string'' \<or> isArray (snd p))"])
     (simp_all add: length_step_changes length_step_isl)

lemma acceptance_throws:
  "isl (acceptance ao cs) \<longleftrightarrow>
     (\<exists>f\<in>set (fields_opt ao). fst (getChange f cs) \<and>
        typeof (snd (getChange f cs)) \<noteq> ''boolean'')"
  unfolding acceptance_def
  by (rule reduce_throws_iff [where bad = "\<lambda>p. fst p \<and> typeof (snd p) \<noteq> ''boolean''"])
     (simp_all add: acceptance_step_changes acceptance_step_isl)

lemma format_throws:
  "isl (format M fo st cs) \<longleftrightarrow>
     (\<exists>f\<in>set (fields_opt fo). fst (getChange f cs) \<and>
        typeof (snd (getChange f cs)) \<noteq> ''string'')"
proof -
  have "isl (reduce (format_step M fo) (fields_opt fo) (st, cs)) \<longleftrightarrow>
      (\<exists>f\<in>set (fields_opt fo).
         (\<lambda>p. fst p \<and> typeof (snd p) \<noteq> ''string'') (getChange f (snd (st, cs))))"
    by (rule reduce_throws_on) (simp_all add: format_step_changes format_step_isl)
  then show ?thesis by (simp add: format_def)
qed

text \<open>
  What a step that returns has recorded on its field: \<^verbatim>\<open>acceptance\<close> an error for a
  pending \<^verbatim>\<open>false\<close>, \<^verbatim>\<open>length\<close> an error when a message was assigned, \<^verbatim>\<open>format\<close> an
  error when the string has no match.
\<close>

lemma acceptance_step_records:
  assumes "acceptance_step opt c f = Inr c'"
  shows "errors_of c' f = errors_of c f @
    (if getChange f c = (True, JBool False)
     then [[(''message'', AStr (default_to ''must be accepted'' (message opt))),
            (''validation'', AStr ''acceptance'')]]
     else [])"
proof (cases "getChange f c")
  case (Pair ok v)
  with assms show ?thesis
    by (cases v) (auto simp: acceptance_step_def errors_of_putError split: if_splits)
qed

lemma acceptance_step_other:
  assumes "acceptance_step opt c g = Inr c'" and "g \<noteq> f"
  shows "errors_of c' f = errors_of c f"
  using acceptance_step_cases [OF assms(1)] assms(2) by (auto simp: errors_of_putError)

lemma acceptance_records:
  assumes "acceptance ao cs = Inr cs'" and "distinct (fields_opt ao)"
  shows "errors_of cs' f = errors_of cs f @
    (if f \<in> set (fields_opt ao) \<and> getChange f cs = (True, JBool False)
     then [[(''message'', AStr (default_to ''must be accepted'' (message ao))),
            (''validation'', AStr ''acceptance'')]]
     else [])"
proof (cases "f \<in> set (fields_opt ao)")
  case True
  let ?new = "if getChange f cs = (True, JBool False)
     then [[(''message'', AStr (default_to ''must be accepted'' (message ao))),
            (''validation'', AStr ''acceptance'')]]
     else []"
  have "errors_of cs' f = errors_of cs f @ ?new"
  proof (rule reduce_errors_at [where stp = "acceptance_step ao" and fs = "fields_opt ao"])
    show "reduce (acceptance_step ao) (fields_opt ao) cs = Inr cs'"
      using assms(1) by (simp add: acceptance_def)
    show "errors_of c' f = errors_of c f @ ?new"
      if "changes c = changes cs" and "acceptance_step ao c f = Inr c'" for c c'
      using acceptance_step_records [OF that(2)] getChange_cong [OF that(1), of f] by simp
  qed (use assms(2) True in \<open>auto simp: acceptance_step_changes acceptance_step_other\<close>)
  with True show ?thesis by simp
next
  case False
  have "errors_of ((\<lambda>c. c) cs') f = errors_of ((\<lambda>c. c) cs) f"
  proof (rule reduce_errors_untouched [where stp = "acceptance_step ao" and fs = "fields_opt ao"])
    show "reduce (acceptance_step ao) (fields_opt ao) cs = Inr cs'"
      using assms(1) by (simp add: acceptance_def)
  qed (use False in \<open>auto simp: acceptance_step_other\<close>)
  with False show ?thesis by simp
qed

lemma length_step_records:
  assumes "length_step opt c f = Inr c'"
  shows "errors_of c' f = errors_of c f @
    (let v = snd (getChange f c);
         len = js_length v;
         (msg_is, msg_min, msg_max) = length_messages (typeof v = ''string'')
     in if fst (getChange f c) \<and>
           (min_opt opt = max_opt opt \<and> min_opt opt = len \<or> len < min_opt opt \<or>
            max_opt opt < len)
        then [[(''message'', AStr (or_default (message opt)
                  (if max_opt opt < len then msg_max (max_opt opt)
                   else if len < min_opt opt then msg_min (min_opt opt)
                   else msg_is (min_opt opt)))),
               (''validation'', AStr ''length''),
               (''min'', ANum (min_opt opt)),
               (''max'', ANum (max_opt opt))]]
        else [])"
proof (cases "getChange f c")
  case (Pair ok v)
  show ?thesis
  proof (cases ok)
    case False
    with Pair assms show ?thesis by (simp add: length_step_def)
  next
    case True
    with Pair assms show ?thesis
      by (cases v)
         (auto simp: length_step_def length_messages_def Let_def errors_of_putError
            split: if_splits)
  qed
qed

lemma length_step_other:
  assumes "length_step opt c g = Inr c'" and "g \<noteq> f"
  shows "errors_of c' f = errors_of c f"
  using length_step_frame [OF assms(1)] assms(2) by simp

lemma length_records:
  assumes "length_validator lo cs = Inr cs'" and "distinct (fields_opt lo)"
  shows "\<exists>ds. errors_of cs' f = errors_of cs f @ ds \<and>
    (if f \<in> set (fields_opt lo) \<and> fst (getChange f cs) \<and>
        (min_opt lo = max_opt lo \<and> min_opt lo = js_length (snd (getChange f cs)) \<or>
         js_length (snd (getChange f cs)) < min_opt lo \<or>
         max_opt lo < js_length (snd (getChange f cs)))
     then \<exists>msg. ds = [[(''message'', AStr msg), (''validation'', AStr ''length''),
                        (''min'', ANum (min_opt lo)), (''max'', ANum (max_opt lo))]]
     else ds = [])"
proof (cases "f \<in> set (fields_opt lo)")
  case True
  let ?new = "\<lambda>c. (let v = snd (getChange f c);
         len = js_length v;
         (msg_is, msg_min, msg_max) = length_messages (typeof v = ''string'')
     in if fst (getChange f c) \<and>
           (min_opt lo = max_opt lo \<and> min_opt lo = len \<or> len < min_opt lo \<or>
            max_opt lo < len)
        then [[(''message'', AStr (or_default (message lo)
                  (if max_opt lo < len then msg_max (max_opt lo)
                   else if len < min_opt lo then msg_min (min_opt lo)
                   else msg_is (min_opt lo)))),
               (''validation'', AStr ''length''),
               (''min'', ANum (min_opt lo)),
               (''max'', ANum (max_opt lo))]]
        else [])"
  have "errors_of cs' f = errors_of cs f @ ?new cs"
  proof (rule reduce_errors_at [where stp = "length_step lo" and fs = "fields_opt lo"])
    show "reduce (length_step lo) (fields_opt lo) cs = Inr cs'"
      using assms(1) by (simp add: length_validator_def)
    show "errors_of c' f = errors_of c f @ ?new cs"
      if "changes c = changes cs" and "length_step lo c f = Inr c'" for c c'
      using length_step_records [OF that(2)] getChange_cong [OF that(1), of f] by simp
  qed (use assms(2) True in \<open>auto simp: length_step_changes length_step_other\<close>)
  with True show ?thesis
    by (auto simp: Let_def split: prod.splits)
next
  case False
  have "errors_of ((\<lambda>c. c) cs') f = errors_of ((\<lambda>c. c) cs) f"
  proof (rule reduce_errors_untouched [where stp = "length_step lo" and fs = "fields_opt lo"])
    show "reduce (length_step lo) (fields_opt lo) cs = Inr cs'"
      using assms(1) by (simp add: length_validator_def)
  qed (use False in \<open>auto simp: length_step_other\<close>)
  with False show ?thesis by simp
qed

text \<open>
  Without the flag \<^verbatim>\<open>y\<close>, or with the flag \<^verbatim>\<open>g\<close>, whether a string matches does not
  depend on \<^verbatim>\<open>lastIndex\<close>.
\<close>

lemma string_match_stateless:
  assumes "global r \<or> \<not> sticky r"
  shows "fst (string_match M r s lastIndex) = fst (string_match M r s 0)"
  using assms
  by (auto simp: string_match_def RegExpBuiltinExec_def Let_def split: option.splits)

lemma format_step_records:
  assumes "format_step M opt (st, c) f = Inr (st', c')"
    and "global (match opt) \<or> \<not> sticky (match opt)"
  shows "errors_of c' f = errors_of c f @
    (if \<exists>s. getChange f c = (True, JStr s) \<and> \<not> fst (string_match M (match opt) s 0)
     then [[(''message'', AStr (default_to ''has invalid format'' (message opt))),
            (''validation'', AStr ''format''),
            (''match'', AVal (JRegExp (match opt)))]]
     else [])"
proof (cases "getChange f c")
  case (Pair ok v)
  show ?thesis
  proof (cases ok)
    case False
    with Pair assms(1) show ?thesis by (simp add: format_step_def)
  next
    case True
    show ?thesis
    proof (cases v)
      case (JStr s)
      have "fst (string_match M (match opt) s (st (ident (match opt)))) =
          fst (string_match M (match opt) s 0)"
        using assms(2) by (rule string_match_stateless)
      with Pair True JStr assms(1) show ?thesis
        by (auto simp: format_step_def Let_def errors_of_putError split: prod.splits if_splits)
    qed (use Pair True assms(1) in \<open>auto simp: format_step_def\<close>)
  qed
qed

lemma format_step_other:
  assumes "format_step M opt a g = Inr a'" and "g \<noteq> f"
  shows "errors_of (snd a') f = errors_of (snd a) f"
  using format_step_cases [of M opt "fst a" "snd a" g "fst a'" "snd a'"] assms
  by (auto simp: errors_of_putError)

lemma format_records:
  assumes "format M fo st cs = Inr (st', cs')" and "distinct (fields_opt fo)"
    and "global (match fo) \<or> \<not> sticky (match fo)"
  shows "errors_of cs' f = errors_of cs f @
    (if f \<in> set (fields_opt fo) \<and>
        (\<exists>s. getChange f cs = (True, JStr s) \<and> \<not> fst (string_match M (match fo) s 0))
     then [[(''message'', AStr (default_to ''has invalid format'' (message fo))),
            (''validation'', AStr ''format''),
            (''match'', AVal (JRegExp (match fo)))]]
     else [])"
proof -
  have run: "reduce (format_step M fo) (fields_opt fo) (st, cs) = Inr (st', cs')"
    using assms(1) by (simp add: format_def)
  show ?thesis
  proof (cases "f \<in> set (fields_opt fo)")
    case True
    let ?new = "if \<exists>s. getChange f cs = (True, JStr s) \<and>
          \<not> fst (string_match M (match fo) s 0)
       then [[(''message'', AStr (default_to ''has invalid format'' (message fo))),
              (''validation'', AStr ''format''),
              (''match'', AVal (JRegExp (match fo)))]]
       else []"
    have "errors_of (snd (st', cs')) f = errors_of (snd (st, cs)) f @ ?new"
    proof (rule reduce_errors_on [where stp = "format_step M fo" and fs = "fields_opt fo"])
      show "reduce (format_step M fo) (fields_opt fo) (st, cs) = Inr (st', cs')"
        by (rule run)
      show "errors_of (snd a') f = errors_of (snd a) f @ ?new"
        if "changes (snd a) = changes (snd (st, cs))" and "format_step M fo a f = Inr a'"
        for a a'
      proof -
        have "format_step M fo (fst a, snd a) f = Inr (fst a', snd a')"
          using that(2) by simp
        from format_step_records [OF this assms(3)] that(1) getChange_cong [of "snd a" cs f]
        show ?thesis by simp
      qed
    qed (use assms(2) True in \<open>auto simp: format_step_changes format_step_other\<close>)
    with True show ?thesis by simp
  next
    case False
    have "errors_of (snd (st', cs')) f = errors_of (snd (st, cs)) f"
    proof (rule reduce_errors_untouched [where stp = "format_step M fo" and fs = "fields_opt fo"])
      show "reduce (format_step M fo) (fields_opt fo) (st, cs) = Inr (st', cs')"
        by (rule run)
    qed (use False in \<open>auto simp: format_step_other\<close>)
    with False show ?thesis by simp
  qed
qed

text \<open>
  With one field, whatever the flags: the string is matched in the state of the call,
  and the state that is left has the new \<^verbatim>\<open>lastIndex\<close>.
\<close>

lemma format_single:
  assumes "getChange f cs = (True, JStr s)" and "fields_opt fo = [f]"
  shows "format M fo st cs =
    Inr (st(ident (match fo) := snd (string_match M (match fo) s (st (ident (match fo))))),
         if fst (string_match M (match fo) s (st (ident (match fo)))) then cs
         else putError f
                [(''message'', AStr (default_to ''has invalid format'' (message fo))),
                 (''validation'', AStr ''format''),
                 (''match'', AVal (JRegExp (match fo)))] cs)"
  using assms by (simp add: format_def format_step_def Let_def split: prod.splits)

text \<open>
  Claim C5. \<^verbatim>\<open>length\<close>, \<^verbatim>\<open>acceptance\<close> and \<^verbatim>\<open>format\<close> throw exactly when one of their
  fields has a pending change of the wrong type (not a string or an array; not a
  boolean; not a string). A call that throws returns no changeset, so the misuse is on
  no changeset as an error descriptor. A call on well-typed pending changes returns a
  changeset, and there each failure is recorded as an error descriptor on its field, and
  nothing else is: for distinct fields, \<^verbatim>\<open>length\<close> has appended one descriptor tagged
  \<^verbatim>\<open>length\<close> exactly on the fields whose pending length made it assign a message,
  \<^verbatim>\<open>acceptance\<close> one tagged \<^verbatim>\<open>acceptance\<close> exactly on the fields with a pending
  \<^verbatim>\<open>false\<close>, and \<^verbatim>\<open>format\<close>, with an expression whose matching does not depend on
  \<^verbatim>\<open>lastIndex\<close>, one tagged \<^verbatim>\<open>format\<close> exactly on the fields whose pending string has
  no match. With any expression and one field, \<^verbatim>\<open>format\<close> records the failure of the
  match made in the state of the call.
\<close>

theorem misuse_throws_failures_recorded:
  "(isl (length_validator lo cs) \<longleftrightarrow>
      (\<exists>f\<in>set (fields_opt lo). fst (getChange f cs) \<and>
         \<not> (typeof (snd (getChange f cs)) = ''string'' \<or> isArray (snd (getChange f cs)))))
   \<and> (isl (acceptance ao cs) \<longleftrightarrow>
      (\<exists>f\<in>set (fields_opt ao). fst (getChange f cs) \<and>
         typeof (snd (getChange f cs)) \<noteq> ''boolean''))
   \<and> (isl (format M fo st cs) \<longleftrightarrow>
      (\<exists>f\<in>set (fields_opt fo). fst (getChange f cs) \<and>
         typeof (snd (getChange f cs)) \<noteq> ''string''))
   \<and> (\<forall>cs' f. length_validator lo cs = Inr cs' \<and> distinct (fields_opt lo) \<longrightarrow>
        (\<exists>ds. errors_of cs' f = errors_of cs f @ ds \<and>
           (if f \<in> set (fields_opt lo) \<and> fst (getChange f cs) \<and>
               (min_opt lo = max_opt lo \<and> min_opt lo = js_length (snd (getChange f cs)) \<or>
                js_length (snd (getChange f cs)) < min_opt lo \<or>
                max_opt lo < js_length (snd (getChange f cs)))
            then \<exists>msg. ds = [[(''message'', AStr msg), (''validation'', AStr ''length''),
                               (''min'', ANum (min_opt lo)), (''max'', ANum (max_opt lo))]]
            else ds = [])))
   \<and> (\<forall>cs' f. acceptance ao cs = Inr cs' \<and> distinct (fields_opt ao) \<longrightarrow>
        errors_of cs' f = errors_of cs f @
          (if f \<in> set (fields_opt ao) \<and> getChange f cs = (True, JBool False)
           then [[(''message'', AStr (default_to ''must be accepted'' (message ao))),
                  (''validation'', AStr ''acceptance'')]]
           else []))
   \<and> (\<forall>st' cs' f. format M fo st cs = Inr (st', cs') \<and> distinct (fields_opt fo) \<and>
          (global (match fo) \<or> \<not> sticky (match fo)) \<longrightarrow>
        errors_of cs' f = errors_of cs f @
          (if f \<in> set (fields_opt fo) \<and>
              (\<exists>s. getChange f cs = (True, JStr s) \<and>
                 \<not> fst (string_match M (match fo) s 0))
           then [[(''message'', AStr (default_to ''has invalid format'' (message fo))),
                  (''validation'', AStr ''format''),
                  (''match'', AVal (JRegExp (match fo)))]]
           else []))
   \<and> (\<forall>f s. fields_opt fo = [f] \<and> getChange f cs = (True, JStr s) \<longrightarrow>
        format M fo st cs =
          Inr (st(ident (match fo) :=
                 snd (string_match M (match fo) s (st (ident (match fo))))),
               if fst (string_match M (match fo) s (st (ident (match fo)))) then cs
               else putError f
                      [(''message'', AStr (default_to ''has invalid format'' (message fo))),
                       (''validation'', AStr ''format''),
                       (''match'', AVal (JRegExp (match fo)))] cs))"
  using length_throws [of lo cs] acceptance_throws [of ao cs] format_throws [of M fo st cs]
    length_records [of lo cs] acceptance_records [of ao cs] format_records [of M fo st cs]
    format_single [of _ cs _ fo M st]
  by (intro conjI allI impI) blast+

theorem misuse_throws_failures_recorded_witness:
  "isl (length_validator
       \<lparr>message = None, fields_opt = [''name'', ''age''], min_opt = 1, max_opt = 9\<rparr>
       \<lparr>data = Map.empty,
         changes = [''name'' \<mapsto> JStr ''Bob'', ''age'' \<mapsto> JNum (Fin 5),
                    ''rules'' \<mapsto> JStr ''yes'', ''email'' \<mapsto> JBool True],
         errors = Map.empty\<rparr>)
   \<and> isl (acceptance \<lparr>message = None, fields_opt = [''rules'']\<rparr>
       \<lparr>data = Map.empty,
         changes = [''name'' \<mapsto> JStr ''Bob'', ''age'' \<mapsto> JNum (Fin 5),
                    ''rules'' \<mapsto> JStr ''yes'', ''email'' \<mapsto> JBool True],
         errors = Map.empty\<rparr>)
   \<and> isl (format literal
       \<lparr>message = None, fields_opt = [''email''], match = RegExp 1 ''@'' ''''\<rparr> (\<lambda>r. 0)
       \<lparr>data = Map.empty,
         changes = [''name'' \<mapsto> JStr ''Bob'', ''age'' \<mapsto> JNum (Fin 5),
                    ''rules'' \<mapsto> JStr ''yes'', ''email'' \<mapsto> JBool True],
         errors = Map.empty\<rparr>)
   \<and> (\<exists>cs'. length_validator
         \<lparr>message = None, fields_opt = [''name''], min_opt = 3, max_opt = 5\<rparr>
         \<lparr>data = Map.empty,
           changes = [''name'' \<mapsto> JStr ''ab'', ''rules'' \<mapsto> JBool False,
                      ''email'' \<mapsto> JStr ''ab''],
           errors = Map.empty\<rparr> = Inr cs'
        \<and> (\<exists>msg. errors_of cs' ''name'' =
              [[(''message'', AStr msg), (''validation'', AStr ''length''),
                (''min'', ANum 3), (''max'', ANum 5)]]))
   \<and> (\<exists>cs'. acceptance \<lparr>message = None, fields_opt = [''rules'']\<rparr>
         \<lparr>data = Map.empty,
           changes = [''name'' \<mapsto> JStr ''ab'', ''rules'' \<mapsto> JBool False,
                      ''email'' \<mapsto> JStr ''ab''],
           errors = Map.empty\<rparr> = Inr cs'
        \<and> errors_of cs' ''rules'' =
             [[(''message'', AStr ''must be accepted''), (''validation'', AStr ''acceptance'')]])
   \<and> (\<exists>st' cs'. format literal
         \<lparr>message = None, fields_opt = [''email''], match = RegExp 1 ''@'' ''''\<rparr> (\<lambda>r. 0)
         \<lparr>data = Map.empty,
           changes = [''name'' \<mapsto> JStr ''ab'', ''rules'' \<mapsto> JBool False,
                      ''email'' \<mapsto> JStr ''ab''],
           errors = Map.empty\<rparr> = Inr (st', cs')
        \<and> errors_of cs' ''email'' =
             [[(''message'', AStr ''has invalid format''), (''validation'', AStr ''format''),
               (''match'', AVal (JRegExp (RegExp 1 ''@'' '''')))]])"
proof -
  let ?A = "\<lparr>data = Map.empty,
         changes = [''name'' \<mapsto> JStr ''Bob'', ''age'' \<mapsto> JNum (Fin 5),
                    ''rules'' \<mapsto> JStr ''yes'', ''email'' \<mapsto> JBool True],
         errors = Map.empty\<rparr>"
  let ?B = "\<lparr>data = Map.empty,
           changes = [''name'' \<mapsto> JStr ''ab'', ''rules'' \<mapsto> JBool False,
                      ''email'' \<mapsto> JStr ''ab''],
           errors = Map.empty\<rparr>"
  let ?lA = "\<lparr>message = None, fields_opt = [''name'', ''age''], min_opt = 1, max_opt = 9\<rparr>"
  let ?lB = "\<lparr>message = None, fields_opt = [''name''], min_opt = 3, max_opt = 5\<rparr>"
  let ?ao = "\<lparr>message = None, fields_opt = [''rules'']\<rparr>"
  let ?fo = "\<lparr>message = None, fields_opt = [''email''], match = RegExp 1 ''@'' ''''\<rparr>"
  note at_A = misuse_throws_failures_recorded [of ?lA ?A ?ao literal ?fo "\<lambda>r. 0"]
  note at_B = misuse_throws_failures_recorded [of ?lB ?B ?ao literal ?fo "\<lambda>r. 0"]
  have throws: "isl (length_validator ?lA ?A)" "isl (acceptance ?ao ?A)"
    "isl (format literal ?fo (\<lambda>r. 0) ?A)"
    using at_A by (simp_all add: getChange_def)
  obtain c1 where c1: "length_validator ?lB ?B = Inr c1"
    by (simp add: length_validator_def length_step_def getChange_def length_messages_def)
  obtain c2 where c2: "acceptance ?ao ?B = Inr c2"
    by (simp add: acceptance_def acceptance_step_def getChange_def)
  have pending: "getChange ''name'' ?B = (True, JStr ''ab'')"
    "getChange ''rules'' ?B = (True, JBool False)"
    "getChange ''email'' ?B = (True, JStr ''ab'')"
    by (simp_all add: getChange_def)
  have "\<exists>s3 c3. format literal ?fo (\<lambda>r. 0) ?B = Inr (s3, c3)"
    using format_single [OF pending(3), of ?fo literal "\<lambda>r. 0"] by simp
  then obtain s3 c3 where c3: "format literal ?fo (\<lambda>r. 0) ?B = Inr (s3, c3)"
    by blast
  have no_match: "\<not> fst (string_match literal (RegExp 1 ''@'' '''') ''ab'' 0)"
    by (simp add: string_match_def RegExpBuiltinExec_def global_def sticky_def literal_def
        upt_rec)
  note recorded_length =
    at_B [THEN conjunct2, THEN conjunct2, THEN conjunct2, THEN conjunct1, rule_format]
  note recorded_acceptance =
    at_B [THEN conjunct2, THEN conjunct2, THEN conjunct2, THEN conjunct2, THEN conjunct1,
      rule_format]
  note recorded_format =
    at_B [THEN conjunct2, THEN conjunct2, THEN conjunct2, THEN conjunct2, THEN conjunct2,
      THEN conjunct1, rule_format]
  have "\<exists>msg. errors_of c1 ''name'' =
      [[(''message'', AStr msg), (''validation'', AStr ''length''),
        (''min'', ANum 3), (''max'', ANum 5)]]"
  proof -
    have "length_validator ?lB ?B = Inr c1 \<and> distinct (fields_opt ?lB)"
      using c1 by simp
    from recorded_length [OF this, of "''name''"] show ?thesis
      by (auto simp: pending errors_of_def)
  qed
  moreover have "errors_of c2 ''rules'' =
      [[(''message'', AStr ''must be accepted''), (''validation'', AStr ''acceptance'')]]"
  proof -
    have "acceptance ?ao ?B = Inr c2 \<and> distinct (fields_opt ?ao)"
      using c2 by simp
    from recorded_acceptance [OF this, of "''rules''"] show ?thesis
      by (simp add: pending errors_of_def default_to_def)
  qed
  moreover have "errors_of c3 ''email'' =
      [[(''message'', AStr ''has invalid format''), (''validation'', AStr ''format''),
        (''match'', AVal (JRegExp (RegExp 1 ''@'' '''')))]]"
  proof -
    have "format literal ?fo (\<lambda>r. 0) ?B = Inr (s3, c3) \<and> distinct (fields_opt ?fo) \<and>
        (global (match ?fo) \<or> \<not> sticky (match ?fo))"
      using c3 by (simp add: sticky_def)
    from recorded_format [OF this, of "''email''"] show ?thesis
      using no_match by (simp add: pending errors_of_def default_to_def)
  qed
  ultimately show ?thesis
    using throws c1 c2 c3 by blast
qed

section \<open>confirmation\<close>

lemma confirmation_single:
  "confirmation \<lparr>message = None, fields_opt = [F]\<rparr> cs =
     (if \<not> fst (getChange F cs) \<and> \<not> fst (getChange (F @ ''Confirmation'') cs) then cs
      else if isEqual (snd (getChange F cs)) (snd (getChange (F @ ''Confirmation'') cs)) then cs
      else putError F
             [(''message'', AStr ''does not match''),
              (''validation'', AStr ''confirmation''),
              (''confirmation'', AVal (snd (getChange (F @ ''Confirmation'') cs)))] cs)"
  by (cases "getChange F cs"; cases "getChange (F @ ''Confirmation'') cs")
     (simp add: confirmation_def confirmation_step_def default_to_def)

text \<open>
  Claim C4, as amended. For every field \<open>F\<close>, \<^verbatim>\<open>confirmation({fields: [F]})\<close> returns the
  changeset unchanged when neither \<open>F\<close> nor \<open>F + "Confirmation"\<close> has a pending change.
  Otherwise it compares, with deep equality, the two values that \<^verbatim>\<open>getChange\<close> returned,
  without falling back to the persisted data: equal values leave the changeset
  unchanged, and a mismatch appends exactly one error on \<open>F\<close>, tagged \<^verbatim>\<open>confirmation\<close>
  with the default message "does not match" and carrying the value read for the
  confirmation field. The errors of every other field, the confirmation field among
  them, stay as they were.
\<close>

theorem confirmation_compares_pending_changes:
  "(\<not> fst (getChange F cs) \<and> \<not> fst (getChange (F @ ''Confirmation'') cs) \<longrightarrow>
      confirmation \<lparr>message = None, fields_opt = [F]\<rparr> cs = cs)
   \<and> ((fst (getChange F cs) \<or> fst (getChange (F @ ''Confirmation'') cs)) \<and>
       isEqual (snd (getChange F cs)) (snd (getChange (F @ ''Confirmation'') cs)) \<longrightarrow>
      confirmation \<lparr>message = None, fields_opt = [F]\<rparr> cs = cs)
   \<and> ((fst (getChange F cs) \<or> fst (getChange (F @ ''Confirmation'') cs)) \<and>
       \<not> isEqual (snd (getChange F cs)) (snd (getChange (F @ ''Confirmation'') cs)) \<longrightarrow>
      confirmation \<lparr>message = None, fields_opt = [F]\<rparr> cs =
        putError F
          [(''message'', AStr ''does not match''),
           (''validation'', AStr ''confirmation''),
           (''confirmation'', AVal (snd (getChange (F @ ''Confirmation'') cs)))] cs
      \<and> errors_of (confirmation \<lparr>message = None, fields_opt = [F]\<rparr> cs) F =
          errors_of cs F @
            [[(''message'', AStr ''does not match''),
              (''validation'', AStr ''confirmation''),
              (''confirmation'', AVal (snd (getChange (F @ ''Confirmation'') cs)))]])
   \<and> (\<forall>g. g \<noteq> F \<longrightarrow>
        errors_of (confirmation \<lparr>message = None, fields_opt = [F]\<rparr> cs) g = errors_of cs g)"
  by (auto simp: confirmation_single errors_of_putError)

theorem confirmation_compares_pending_changes_witness:
  "errors_of (confirmation \<lparr>message = None, fields_opt = [''email'']\<rparr>
      \<lparr>data = Map.empty,
        changes = [''email'' \<mapsto> JStr ''a@b.com'', ''emailConfirmation'' \<mapsto> JStr ''a@b.org''],
        errors = Map.empty\<rparr>) ''email'' =
     [[(''message'', AStr ''does not match''),
       (''validation'', AStr ''confirmation''),
       (''confirmation'', AVal (JStr ''a@b.org''))]]
   \<and> errors_of (confirmation \<lparr>message = None, fields_opt = [''email'']\<rparr>
      \<lparr>data = Map.empty,
        changes = [''email'' \<mapsto> JStr ''a@b.com'', ''emailConfirmation'' \<mapsto> JStr ''a@b.org''],
        errors = Map.empty\<rparr>) ''emailConfirmation'' = []
   \<and> confirmation \<lparr>message = None, fields_opt = [''email'']\<rparr>
      \<lparr>data = Map.empty,
        changes = [''email'' \<mapsto> JStr ''a@b.com'', ''emailConfirmation'' \<mapsto> JStr ''a@b.com''],
        errors = Map.empty\<rparr> =
      \<lparr>data = Map.empty,
        changes = [''email'' \<mapsto> JStr ''a@b.com'', ''emailConfirmation'' \<mapsto> JStr ''a@b.com''],
        errors = Map.empty\<rparr>
   \<and> confirmation \<lparr>message = None, fields_opt = [''email'']\<rparr>
      \<lparr>data = [''email'' \<mapsto> JStr ''a@b.com''], changes = Map.empty, errors = Map.empty\<rparr> =
      \<lparr>data = [''email'' \<mapsto> JStr ''a@b.com''], changes = Map.empty, errors = Map.empty\<rparr>"
  using confirmation_compares_pending_changes [of "''email''"
      "\<lparr>data = Map.empty,
        changes = [''email'' \<mapsto> JStr ''a@b.com'', ''emailConfirmation'' \<mapsto> JStr ''a@b.org''],
        errors = Map.empty\<rparr>"]
    confirmation_compares_pending_changes [of "''email''"
      "\<lparr>data = Map.empty,
        changes = [''email'' \<mapsto> JStr ''a@b.com'', ''emailConfirmation'' \<mapsto> JStr ''a@b.com''],
        errors = Map.empty\<rparr>"]
    confirmation_compares_pending_changes [of "''email''"
      "\<lparr>data = [''email'' \<mapsto> JStr ''a@b.com''], changes = Map.empty, errors = Map.empty\<rparr>"]
  by (simp add: getChange_def isEqual_def errors_of_def putError_def)

text \<open>
  Claim C4 has the validator compare effective values. With the e-mail pending and an
  equal confirmation persisted, the effective values are deeply equal, and the
  validator still appends an error: it read \<^verbatim>\<open>undefined\<close> for the confirmation.
\<close>

theorem confirmation_effective_values_counterexample:
  "isEqual
     (effective_value ''email''
        \<lparr>data = [''emailConfirmation'' \<mapsto> JStr ''a@b.com''],
          changes = [''email'' \<mapsto> JStr ''a@b.com''], errors = Map.empty\<rparr>)
     (effective_value ''emailConfirmation''
        \<lparr>data = [''emailConfirmation'' \<mapsto> JStr ''a@b.com''],
          changes = [''email'' \<mapsto> JStr ''a@b.com''], errors = Map.empty\<rparr>)
   \<and> errors_of
       (confirmation \<lparr>message = None, fields_opt = [''email'']\<rparr>
          \<lparr>data = [''emailConfirmation'' \<mapsto> JStr ''a@b.com''],
            changes = [''email'' \<mapsto> JStr ''a@b.com''], errors = Map.empty\<rparr>) ''email'' =
     [[(''message'', AStr ''does not match''),
       (''validation'', AStr ''confirmation''),
       (''confirmation'', AVal JUndefined)]]"
  by (simp add: effective_value_def getChange_def getField_def isEqual_def confirmation_def
      confirmation_step_def default_to_def errors_of_def putError_def)

section \<open>exclusion and inclusion\<close>

lemma strict_equal_typeof: "strict_equal x y \<Longrightarrow> typeof x = typeof y"
  by (induction x y rule: strict_equal.induct) simp_all

lemma exclusion_step_at:
  assumes "getChange f c = (True, v)"
  shows "errors_of (exclusion_step opt c f) f =
    errors_of c f @
      (if \<exists>x\<in>set (reserved opt). strict_equal x v
       then [[(''message'', AStr (default_to ''is reserved'' (message opt))),
              (''validation'', AStr ''exclusion''),
              (''reserved'', AList (reserved opt))]]
       else [])"
  using assms by (simp add: exclusion_step_def list_ex_iff errors_of_putError)

lemma inclusion_step_at:
  assumes "getChange f c = (True, v)"
  shows "errors_of (inclusion_step opt c f) f =
    errors_of c f @
      (if \<exists>x\<in>set (include_opt opt). strict_equal x v then []
       else [[(''message'', AStr (default_to ''is invalid'' (message opt))),
              (''validation'', AStr ''inclusion''),
              (''include'', AList (include_opt opt))]])"
  using assms by (simp add: inclusion_step_def list_ex_iff errors_of_putError)

text \<open>
  Claim C8. Let the fields be distinct, \<open>f\<close> among them, with a pending change \<open>v\<close> for
  \<open>f\<close>. \<^verbatim>\<open>exclusion\<close> appends an error on \<open>f\<close>, tagged \<^verbatim>\<open>exclusion\<close> with the default
  message "is reserved", exactly when some entry of \<^verbatim>\<open>reserved\<close> is strictly equal to
  \<open>v\<close>; \<^verbatim>\<open>inclusion\<close> appends one, tagged \<^verbatim>\<open>inclusion\<close> with the default message "is
  invalid", exactly when no entry of \<^verbatim>\<open>include\<close> is. Strict equality converts nothing:
  values of different types are never equal.
\<close>

theorem exclusion_inclusion_membership:
  assumes "getChange f cs = (True, v)" and "f \<in> set fs" and "distinct fs"
  shows "errors_of (exclusion \<lparr>message = None, fields_opt = fs, reserved = rs\<rparr> cs) f =
           errors_of cs f @
             (if \<exists>x\<in>set rs. strict_equal x v
              then [[(''message'', AStr ''is reserved''), (''validation'', AStr ''exclusion''),
                     (''reserved'', AList rs)]]
              else [])
       \<and> errors_of (inclusion \<lparr>message = None, fields_opt = fs, include_opt = inc\<rparr> cs) f =
           errors_of cs f @
             (if \<exists>x\<in>set inc. strict_equal x v then []
              else [[(''message'', AStr ''is invalid''), (''validation'', AStr ''inclusion''),
                     (''include'', AList inc)]])
       \<and> (\<forall>x. strict_equal x v \<longrightarrow> typeof x = typeof v)"
proof (intro conjI)
  let ?eo = "\<lparr>message = None, fields_opt = fs, reserved = rs\<rparr>"
  let ?io = "\<lparr>message = None, fields_opt = fs, include_opt = inc\<rparr>"
  have pending: "getChange f c = (True, v)" if "changes c = changes cs" for c
    using that assms(1) getChange_cong [of c cs f] by simp
  show "errors_of (exclusion ?eo cs) f =
           errors_of cs f @
             (if \<exists>x\<in>set rs. strict_equal x v
              then [[(''message'', AStr ''is reserved''), (''validation'', AStr ''exclusion''),
                     (''reserved'', AList rs)]]
              else [])"
    unfolding exclusion_def
    using foldl_errors_at [of "exclusion_step ?eo" f cs _ "fields_opt ?eo"]
      exclusion_step_at [OF pending, of _ ?eo] assms(2,3)
    by (simp add: exclusion_step_frame default_to_def)
  show "errors_of (inclusion ?io cs) f =
           errors_of cs f @
             (if \<exists>x\<in>set inc. strict_equal x v then []
              else [[(''message'', AStr ''is invalid''), (''validation'', AStr ''inclusion''),
                     (''include'', AList inc)]])"
    unfolding inclusion_def
    using foldl_errors_at [of "inclusion_step ?io" f cs _ "fields_opt ?io"]
      inclusion_step_at [OF pending, of _ ?io] assms(2,3)
    by (simp add: inclusion_step_frame default_to_def)
  show "\<forall>x. strict_equal x v \<longrightarrow> typeof x = typeof v"
    by (simp add: strict_equal_typeof)
qed

theorem exclusion_inclusion_membership_witness:
  "errors_of (inclusion
       \<lparr>message = None, fields_opt = [''name'', ''role''],
         include_opt = [JStr ''admin'', JStr ''user'']\<rparr>
       \<lparr>data = Map.empty, changes = [''role'' \<mapsto> JStr ''guest''], errors = Map.empty\<rparr>) ''role'' =
     [[(''message'', AStr ''is invalid''), (''validation'', AStr ''inclusion''),
       (''include'', AList [JStr ''admin'', JStr ''user''])]]
   \<and> errors_of (exclusion
       \<lparr>message = None, fields_opt = [''name'', ''role''],
         reserved = [JStr ''admin'', JStr ''guest'']\<rparr>
       \<lparr>data = Map.empty, changes = [''role'' \<mapsto> JStr ''guest''], errors = Map.empty\<rparr>) ''role'' =
     [[(''message'', AStr ''is reserved''), (''validation'', AStr ''exclusion''),
       (''reserved'', AList [JStr ''admin'', JStr ''guest''])]]
   \<and> errors_of (exclusion
       \<lparr>message = None, fields_opt = [''name'', ''role''], reserved = [JNum (Fin 1)]\<rparr>
       \<lparr>data = Map.empty, changes = [''role'' \<mapsto> JStr ''1''], errors = Map.empty\<rparr>) ''role'' = []"
proof -
  let ?guest = "\<lparr>data = Map.empty, changes = [''role'' \<mapsto> JStr ''guest''], errors = Map.empty\<rparr>"
  let ?one = "\<lparr>data = Map.empty, changes = [''role'' \<mapsto> JStr ''1''], errors = Map.empty\<rparr>"
  have guest: "getChange ''role'' ?guest = (True, JStr ''guest'')"
    and one: "getChange ''role'' ?one = (True, JStr ''1'')"
    by (simp_all add: getChange_def)
  have "''role'' \<in> set [''name'', ''role'']" and "distinct [''name'', ''role'']"
    by simp_all
  note at_guest = exclusion_inclusion_membership
      [OF guest this, of "[JStr ''admin'', JStr ''guest'']" "[JStr ''admin'', JStr ''user'']"]
    and at_one = exclusion_inclusion_membership [OF one this, of "[JNum (Fin 1)]" "[]"]
  from at_guest at_one show ?thesis
    by (simp add: errors_of_def)
qed

section \<open>The numeric comparisons\<close>

lemma compare_step_pending:
  assumes "getChange f cs = (True, v)"
  shows "compare_step holds msg tag opt cs f =
    (if holds v (number opt) then cs
     else putError f [(''message'', AStr msg), (''validation'', AStr tag),
                      (''number'', ANum (number opt))] cs)"
  using assms by (simp add: compare_step_def)

lemma js_gt_number: "js_gt h (JNum (Fin q)) n \<longleftrightarrow> of_int n < q"
  by (simp add: js_gt_def)

text \<open>
  Claim C7. Let the fields be distinct, \<open>f\<close> among them (as in \<^verbatim>\<open>{fields: [f], number:
  N}\<close>), with a pending change \<open>v\<close> for \<open>f\<close>. \<^verbatim>\<open>greaterThan\<close> appends an error on \<open>f\<close>,
  tagged \<^verbatim>\<open>greater than\<close>, exactly when \<^verbatim>\<open>v > N\<close> is false. For a finite number \<open>v\<close> that
  is when \<open>v\<close> is not strictly greater than \<open>N\<close>: the value \<open>N\<close> gets the error, the
  value \<open>N + 1\<close> gets none.
\<close>

theorem greaterThan_is_strict:
  assumes "getChange f cs = (True, v)" and "f \<in> set fs" and "distinct fs"
  shows "errors_of (greaterThan_validator h \<lparr>message = None, fields_opt = fs, number = N\<rparr> cs) f =
           errors_of cs f @
             (if js_gt h v N then []
              else [[(''message'', AStr (''must be greater than '' @ number_to_string N)),
                     (''validation'', AStr ''greater than''), (''number'', ANum N)]])
       \<and> (\<forall>q. v = JNum (Fin q) \<longrightarrow> (js_gt h v N \<longleftrightarrow> of_int N < q))
       \<and> (v = JNum (Fin (of_int N)) \<longrightarrow>
            errors_of (greaterThan_validator h
                \<lparr>message = None, fields_opt = fs, number = N\<rparr> cs) f =
              errors_of cs f @
                [[(''message'', AStr (''must be greater than '' @ number_to_string N)),
                  (''validation'', AStr ''greater than''), (''number'', ANum N)]])
       \<and> (v = JNum (Fin (of_int (N + 1))) \<longrightarrow>
            errors_of (greaterThan_validator h
                \<lparr>message = None, fields_opt = fs, number = N\<rparr> cs) f = errors_of cs f)"
proof -
  let ?opt = "\<lparr>message = None, fields_opt = fs, number = N\<rparr>"
  let ?msg = "''must be greater than '' @ number_to_string N"
  let ?d = "[(''message'', AStr ?msg), (''validation'', AStr ''greater than''),
             (''number'', ANum N)]"
  have "errors_of (compare_step (js_gt h) ?msg ''greater than'' ?opt c f) f =
      errors_of c f @ (if js_gt h v N then [] else [?d])"
    if "changes c = changes cs" for c
  proof -
    have "getChange f c = (True, v)"
      using that assms(1) getChange_cong [of c cs f] by simp
    then show ?thesis
      by (simp add: compare_step_pending errors_of_putError)
  qed
  then have run: "errors_of (greaterThan_validator h ?opt cs) f =
      errors_of cs f @ (if js_gt h v N then [] else [?d])"
    using foldl_errors_at [of "compare_step (js_gt h) ?msg ''greater than'' ?opt" f cs _ fs]
      assms(2,3)
    by (simp add: greaterThan_validator_def or_default_def compare_step_frame)
  have number: "\<forall>q. v = JNum (Fin q) \<longrightarrow> (js_gt h v N \<longleftrightarrow> of_int N < q)"
    by (simp add: js_gt_number)
  have "v = JNum (Fin (of_int N)) \<longrightarrow>
      errors_of (greaterThan_validator h ?opt cs) f = errors_of cs f @ [?d]"
    using run by (simp add: js_gt_number)
  moreover have "v = JNum (Fin (of_int (N + 1))) \<longrightarrow>
      errors_of (greaterThan_validator h ?opt cs) f = errors_of cs f"
    using run by (simp add: js_gt_number)
  ultimately show ?thesis using run number by blast
qed

theorem greaterThan_is_strict_witness:
  "errors_of (greaterThan_validator (\<lambda>v. NaN) \<lparr>message = None, fields_opt = [''age''], number = 18\<rparr>
       \<lparr>data = Map.empty, changes = [''age'' \<mapsto> JNum (Fin 18)], errors = Map.empty\<rparr>) ''age'' =
     [[(''message'', AStr ''must be greater than 18''),
       (''validation'', AStr ''greater than''), (''number'', ANum 18)]]
   \<and> errors_of (greaterThan_validator (\<lambda>v. NaN) \<lparr>message = None, fields_opt = [''age''], number = 18\<rparr>
       \<lparr>data = Map.empty, changes = [''age'' \<mapsto> JNum (Fin 19)], errors = Map.empty\<rparr>) ''age'' = []"
proof -
  let ?opt = "\<lparr>message = None, fields_opt = [''age''], number = 18\<rparr>"
  let ?c18 = "\<lparr>data = Map.empty, changes = [''age'' \<mapsto> JNum (Fin 18)], errors = Map.empty\<rparr>"
  let ?c19 = "\<lparr>data = Map.empty, changes = [''age'' \<mapsto> JNum (Fin 19)], errors = Map.empty\<rparr>"
  have p18: "getChange ''age'' ?c18 = (True, JNum (Fin 18))"
    and p19: "getChange ''age'' ?c19 = (True, JNum (Fin 19))"
    by (simp_all add: getChange_def)
  have "''age'' \<in> set [''age'']" and "distinct [''age'']"
    by simp_all
  note at18 = greaterThan_is_strict [OF p18 this, of "\<lambda>v. NaN" 18]
    and at19 = greaterThan_is_strict [OF p19 this, of "\<lambda>v. NaN" 18]
  from at18 at19 show ?thesis
    by (simp add: errors_of_def number_to_string_def digits.simps digit_char_def)
qed

section \<open>The library as a whole\<close>

lemma putErrors_errors_of:
  "errors_of (foldl (\<lambda>c e. putError f e c) cs ds) g =
     errors_of cs g @ (if g = f then ds else [])"
  by (induction ds arbitrary: cs) (simp_all add: errors_of_putError)

lemma putErrors_data [simp]: "data (foldl (\<lambda>c e. putError f e c) cs ds) = data cs"
  by (induction ds arbitrary: cs) simp_all

lemma putErrors_changes [simp]: "changes (foldl (\<lambda>c e. putError f e c) cs ds) = changes cs"
  by (induction ds arbitrary: cs) simp_all

lemma appended_putError: "appended\<^sup>*\<^sup>* c (putError f d c)"
  by (rule r_into_rtranclp) (auto simp: appended_def)

lemma flagged_step:
  "f \<in> F \<Longrightarrow> (flagged F)\<^sup>*\<^sup>* c (putChange f JNull (putError f d c))"
  by (rule r_into_rtranclp) (auto simp: flagged_def)

lemma putErrors_star: "appended\<^sup>*\<^sup>* cs (foldl (\<lambda>c e. putError f e c) cs ds)"
proof (induction ds arbitrary: cs)
  case Nil
  then show ?case by simp
next
  case (Cons d ds)
  have "appended cs (putError f d cs)" by (auto simp: appended_def)
  with Cons.IH [of "putError f d cs"] show ?case
    by (simp add: converse_rtranclp_into_rtranclp)
qed

lemma appended_star_frame:
  assumes "appended\<^sup>*\<^sup>* c c'"
  shows "data c' = data c \<and> changes c' = changes c \<and>
         (\<forall>g. \<exists>es. errors_of c' g = errors_of c g @ es) \<and>
         ((\<forall>g. errors_of c' g = errors_of c g) \<longrightarrow> c' = c)"
  using assms
proof (induction rule: rtranclp_induct)
  case base
  then show ?case by simp
next
  case (step b c')
  from step.hyps(2) obtain f d where c': "c' = putError f d b"
    by (auto simp: appended_def)
  from step.IH obtain es where es: "errors_of b f = errors_of c f @ es" by blast
  have "errors_of c' f \<noteq> errors_of c f"
    by (simp add: c' errors_of_putError es)
  moreover have "\<forall>g. \<exists>es. errors_of c' g = errors_of c g @ es"
  proof
    fix g
    from step.IH obtain es' where "errors_of b g = errors_of c g @ es'" by blast
    then show "\<exists>es. errors_of c' g = errors_of c g @ es"
      by (cases "g = f") (simp_all add: c' errors_of_putError)
  qed
  ultimately show ?case using step.IH by (auto simp: c')
qed

lemma flagged_star_frame:
  assumes "(flagged F)\<^sup>*\<^sup>* c c'"
  shows "data c' = data c \<and>
         (\<forall>g. \<exists>es. errors_of c' g = errors_of c g @ es \<and>
            (changes c' g = changes c g \<or>
             changes c' g = Some JNull \<and> g \<in> F \<and> es \<noteq> [])) \<and>
         ((\<forall>g. errors_of c' g = errors_of c g) \<longrightarrow> c' = c)"
  using assms
proof (induction rule: rtranclp_induct)
  case base
  then show ?case by simp
next
  case (step b c')
  from step.hyps(2) obtain f d where f: "f \<in> F" and c': "c' = putChange f JNull (putError f d b)"
    by (auto simp: flagged_def)
  from step.IH obtain es where es: "errors_of b f = errors_of c f @ es" by blast
  have "errors_of c' f \<noteq> errors_of c f"
    by (simp add: c' errors_of_putError es)
  moreover have "\<forall>g. \<exists>es. errors_of c' g = errors_of c g @ es \<and>
            (changes c' g = changes c g \<or>
             changes c' g = Some JNull \<and> g \<in> F \<and> es \<noteq> [])"
  proof
    fix g
    from step.IH obtain es' where es': "errors_of b g = errors_of c g @ es'"
      "changes b g = changes c g \<or> changes b g = Some JNull \<and> g \<in> F \<and> es' \<noteq> []"
      by blast
    show "\<exists>es. errors_of c' g = errors_of c g @ es \<and>
            (changes c' g = changes c g \<or>
             changes c' g = Some JNull \<and> g \<in> F \<and> es \<noteq> [])"
    proof (cases "g = f")
      case True
      then show ?thesis using es' f by (simp add: c' errors_of_putError)
    next
      case False
      then show ?thesis using es' by (simp add: c' errors_of_putError)
    qed
  qed
  ultimately show ?case using step.IH by (auto simp: c')
qed

lemma required_star: "(flagged (set (fields_opt opt)))\<^sup>*\<^sup>* cs (required opt cs)"
  unfolding required_def
proof (rule foldl_star)
  fix c f
  assume "f \<in> set (fields_opt opt)"
  then show "(flagged (set (fields_opt opt)))\<^sup>*\<^sup>* c (required_step opt c f)"
    using required_step_cases [of opt c f] by (auto simp: flagged_step)
qed

lemma length_star: "length_validator opt cs = Inr cs' \<Longrightarrow> appended\<^sup>*\<^sup>* cs cs'"
  unfolding length_validator_def
  by (erule reduce_star [rotated]) (auto dest: length_step_cases simp: appended_putError)

lemma acceptance_star: "acceptance opt cs = Inr cs' \<Longrightarrow> appended\<^sup>*\<^sup>* cs cs'"
  unfolding acceptance_def
  by (erule reduce_star [rotated]) (auto dest: acceptance_step_cases simp: appended_putError)

lemma format_star:
  assumes "format M opt st cs = Inr (st', cs')"
  shows "appended\<^sup>*\<^sup>* cs cs'"
proof -
  have "appended\<^sup>*\<^sup>* (snd (st, cs)) (snd (st', cs'))"
  proof (rule reduce_invariant
      [where R = "\<lambda>a a'. appended\<^sup>*\<^sup>* (snd a) (snd a')" and stp = "format_step M opt"
        and fs = "fields_opt opt"])
    show "reduce (format_step M opt) (fields_opt opt) (st, cs) = Inr (st', cs')"
      using assms by (simp add: format_def)
    show "appended\<^sup>*\<^sup>* (snd a) (snd a')" if "format_step M opt a f = Inr a'" for a f a'
      using format_step_cases [of M opt "fst a" "snd a" f "fst a'" "snd a'"] that
      by (auto simp: appended_putError)
    show "appended\<^sup>*\<^sup>* (snd a) (snd c)"
      if "appended\<^sup>*\<^sup>* (snd a) (snd b)" and "appended\<^sup>*\<^sup>* (snd b) (snd c)"
      for a b c :: "lastIndexes \<times> changeset"
      using that by (rule rtranclp_trans)
  qed simp
  then show ?thesis by simp
qed

lemma change_star: "appended\<^sup>*\<^sup>* cs (change opt cs)"
  unfolding change_def
proof (rule foldl_star)
  fix c f
  show "appended\<^sup>*\<^sup>* c (change_step opt c f)"
    using change_step_cases [of opt c f] by (auto simp: putErrors_star)
qed

lemma confirmation_star: "appended\<^sup>*\<^sup>* cs (confirmation opt cs)"
  unfolding confirmation_def
proof (rule foldl_star)
  fix c f
  show "appended\<^sup>*\<^sup>* c (confirmation_step opt c f)"
    using confirmation_step_cases [of opt c f] by (auto simp: appended_putError)
qed

lemma exclusion_star: "appended\<^sup>*\<^sup>* cs (exclusion opt cs)"
  unfolding exclusion_def
proof (rule foldl_star)
  fix c f
  show "appended\<^sup>*\<^sup>* c (exclusion_step opt c f)"
    using exclusion_step_cases [of opt c f] by (auto simp: appended_putError)
qed

lemma inclusion_star: "appended\<^sup>*\<^sup>* cs (inclusion opt cs)"
  unfolding inclusion_def
proof (rule foldl_star)
  fix c f
  show "appended\<^sup>*\<^sup>* c (inclusion_step opt c f)"
    using inclusion_step_cases [of opt c f] by (auto simp: appended_putError)
qed

lemma compare_star:
  "appended\<^sup>*\<^sup>* cs (foldl (compare_step holds msg tag opt) cs fs)"
proof (rule foldl_star)
  fix c f
  show "appended\<^sup>*\<^sup>* c (compare_step holds msg tag opt c f)"
    using compare_step_cases [of holds msg tag opt c f] by (auto simp: appended_putError)
qed

lemma in_state_Inr: "in_state st result = Inr (st', cs') \<longleftrightarrow> st' = st \<and> result = Inr cs'"
  by (cases result) (auto simp: in_state_def)

lemma apply_validator_star:
  assumes "apply_validator h M V st cs = Inr (st', cs')"
  shows "(case V of Required opt \<Rightarrow> (flagged (set (fields_opt opt)))\<^sup>*\<^sup>* cs cs'
          | _ \<Rightarrow> appended\<^sup>*\<^sup>* cs cs')"
  using assms
  by (cases V)
     (auto simp: in_state_Inr required_star length_star acceptance_star format_star change_star
        confirmation_star exclusion_star inclusion_star compare_star
        lessThan_validator_def greaterThan_validator_def lessThanOrEqualTo_def
        greaterThanOrEqualTo_def equalTo_def Let_def)








text \<open>
  Claim C10. Whatever a validator of the library returns has the \<^verbatim>\<open>data\<close> of the input
  and, on every field, the errors of the input followed by the appended ones. Every
  validator but \<^verbatim>\<open>required\<close> returns the \<^verbatim>\<open>changes\<close> of the input too; a change that
  differs after \<^verbatim>\<open>required\<close> is that of one of its fields, is null, and comes with an
  appended error on that field.
\<close>

theorem validators_frame:
  assumes "apply_validator h M V st cs = Inr (st', cs')"
  shows "data cs' = data cs
       \<and> (\<forall>g. \<exists>es. errors_of cs' g = errors_of cs g @ es)
       \<and> ((\<forall>opt. V \<noteq> Required opt) \<longrightarrow> changes cs' = changes cs)
       \<and> (\<forall>g. changes cs' g \<noteq> changes cs g \<longrightarrow>
            changes cs' g = Some JNull \<and> errors_of cs' g \<noteq> errors_of cs g \<and>
            (\<exists>opt. V = Required opt \<and> g \<in> set (fields_opt opt)))"
proof (cases "\<exists>opt. V = Required opt")
  case True
  then obtain opt where V: "V = Required opt" by blast
  with apply_validator_star [OF assms]
  have "(flagged (set (fields_opt opt)))\<^sup>*\<^sup>* cs cs'" by simp
  from flagged_star_frame [OF this]
  have d: "data cs' = data cs"
    and e: "\<And>g. \<exists>es. errors_of cs' g = errors_of cs g @ es \<and>
            (changes cs' g = changes cs g \<or>
             changes cs' g = Some JNull \<and> g \<in> set (fields_opt opt) \<and> es \<noteq> [])"
    by blast+
  have "\<exists>es. errors_of cs' g = errors_of cs g @ es" for g
    using e [of g] by blast
  moreover have "changes cs' g = Some JNull \<and> errors_of cs' g \<noteq> errors_of cs g \<and>
      g \<in> set (fields_opt opt)" if "changes cs' g \<noteq> changes cs g" for g
    using e [of g] that by auto
  ultimately show ?thesis using d V by simp
next
  case False
  with apply_validator_star [OF assms]
  have "appended\<^sup>*\<^sup>* cs cs'" by (cases V) simp_all
  from appended_star_frame [OF this] False show ?thesis by simp
qed

theorem validators_frame_witness:
  "data (required \<lparr>message = None, fields_opt = [''title'']\<rparr>
      \<lparr>data = [''id'' \<mapsto> JNum (Fin 1)], changes = [''title'' \<mapsto> JStr '' ''],
        errors = Map.empty\<rparr>)
     = [''id'' \<mapsto> JNum (Fin 1)]
   \<and> changes (required \<lparr>message = None, fields_opt = [''title'']\<rparr>
      \<lparr>data = [''id'' \<mapsto> JNum (Fin 1)], changes = [''title'' \<mapsto> JStr '' ''],
        errors = Map.empty\<rparr>) ''title'' = Some JNull
   \<and> changes (confirmation \<lparr>message = None, fields_opt = [''title'']\<rparr>
      \<lparr>data = [''id'' \<mapsto> JNum (Fin 1)], changes = [''title'' \<mapsto> JStr '' ''],
        errors = Map.empty\<rparr>)
     = [''title'' \<mapsto> JStr '' '']"
proof -
  let ?cs = "\<lparr>data = [''id'' \<mapsto> JNum (Fin 1)], changes = [''title'' \<mapsto> JStr '' ''],
              errors = Map.empty\<rparr>"
  let ?R = "\<lparr>message = None, fields_opt = [''title'']\<rparr>"
  have r: "apply_validator (\<lambda>v. NaN) literal (Required ?R) (\<lambda>r. 0) ?cs =
      Inr (\<lambda>r. 0, required ?R ?cs)"
    by simp
  have c: "apply_validator (\<lambda>v. NaN) literal (Confirmation ?R) (\<lambda>r. 0) ?cs =
      Inr (\<lambda>r. 0, confirmation ?R ?cs)"
    by simp
  have null: "changes (required ?R ?cs) ''title'' = Some JNull"
    by (simp add: required_def required_step_def getChange_def valid_def blank_def is_space_def
        pipe_def)
  from validators_frame [OF r] have "data (required ?R ?cs) = data ?cs" by blast
  moreover from validators_frame [OF c] have "changes (confirmation ?R ?cs) = changes ?cs"
    by simp
  ultimately show ?thesis using null by simp
qed

end
